theory Spec2Isabelle
  imports Complex_Main
begin

section \<open>Tensors\<close>

text \<open>
  A tensor is its shape together with its elements in row-major (C-contiguous) order.
  The element type stays abstract wherever the program does no arithmetic on it.
\<close>

record 'a tensor =
  shape :: "nat list"
  elems :: "'a list"

text \<open>A tensor that takes part in automatic differentiation: its contents and its
  \<^verbatim>\<open>requires_grad\<close> flag.\<close>

record 'a grad_tensor =
  contents :: "'a tensor"
  requires_grad :: bool

datatype error =
    ReshapeError
  | NarrowError
  | CatEmptyError
  | CatShapeError
  | PermuteError
  | MaxEmptyError
  | AssertionError
  | IndexError
  | ZeroDivisionError
  | AttributeError
  | ChannelError nat nat

definition wf_tensor :: "'a tensor \<Rightarrow> bool" where
  "wf_tensor t = (length (elems t) = prod_list (shape t))"

text \<open>\<^verbatim>\<open>len(t)\<close>: the size of the first dimension.\<close>

definition len :: "'a tensor \<Rightarrow> nat" where
  "len t = (case shape t of [] \<Rightarrow> 0 | n # _ \<Rightarrow> n)"

text \<open>
  \<^verbatim>\<open>torch.reshape(t, (-1,) + rest)\<close>. The inferred dimension is the element count
  divided by the product of the others; the call raises when that product is zero
  (the inferred size would be ambiguous or the shape invalid) or does not divide the
  element count.
\<close>

definition reshape_infer :: "'a tensor \<Rightarrow> nat list \<Rightarrow> error + 'a tensor" where
  "reshape_infer t rest =
     (let numel = length (elems t); newsize = prod_list rest in
      if newsize = 0 then Inl ReshapeError
      else if numel mod newsize = 0
        then Inr \<lparr>shape = (numel div newsize) # rest, elems = elems t\<rparr>
        else Inl ReshapeError)"

text \<open>
  \<^verbatim>\<open>t.narrow(0, start, length)\<close>: the rows \<open>start, ..., start + length - 1\<close>. A negative
  start counts from the end; a negative length or a range that leaves the tensor raises.
\<close>

definition slice_rows :: "'a tensor \<Rightarrow> nat \<Rightarrow> nat \<Rightarrow> 'a tensor" where
  "slice_rows t s l =
     (let row = prod_list (tl (shape t)) in
      \<lparr>shape = l # tl (shape t), elems = take (l * row) (drop (s * row) (elems t))\<rparr>)"

definition narrow0 :: "'a tensor \<Rightarrow> int \<Rightarrow> int \<Rightarrow> error + 'a tensor" where
  "narrow0 t start length_arg =
     (case shape t of
        [] \<Rightarrow> Inl NarrowError
      | n # rest \<Rightarrow>
          if length_arg < 0 then Inl NarrowError
          else
            (let s = (if start < 0 then start + int n else start) in
             if s < 0 \<or> s > int n - length_arg then Inl NarrowError
             else Inr (slice_rows t (nat s) (nat length_arg))))"

text \<open>
  \<^verbatim>\<open>torch.cat(ts, 0)\<close>: raises on an empty list, and when the tensors differ in a
  dimension other than the first.
\<close>

definition cat0 :: "'a tensor list \<Rightarrow> error + 'a tensor" where
  "cat0 ts =
     (case ts of
        [] \<Rightarrow> Inl CatEmptyError
      | t # _ \<Rightarrow>
          if list_all (\<lambda>u. shape u \<noteq> [] \<and> tl (shape u) = tl (shape t)) ts
          then Inr \<lparr>shape = sum_list (map len ts) # tl (shape t),
                    elems = concat (map elems ts)\<rparr>
          else Inl CatShapeError)"

text \<open>The rows of a tensor along its first dimension, each in row-major order.\<close>

definition rows_of :: "'a tensor \<Rightarrow> 'a list list" where
  "rows_of t =
     (let w = prod_list (tl (shape t)) in
      map (\<lambda>i. take w (drop (i * w) (elems t))) [0..<len t])"

text \<open>\<^verbatim>\<open>t.unsqueeze(0)\<close>: a new first dimension of size one.\<close>

definition unsqueeze0 :: "'a tensor \<Rightarrow> 'a tensor" where
  "unsqueeze0 t = \<lparr>shape = 1 # shape t, elems = elems t\<rparr>"

text \<open>All multi-indices of a shape, in row-major order, and the position of a
  multi-index in the row-major element list.\<close>

fun all_indices :: "nat list \<Rightarrow> nat list list" where
  "all_indices [] = [[]]"
| "all_indices (d # ds) = concat (map (\<lambda>i. map ((#) i) (all_indices ds)) [0..<d])"

fun flat_index :: "nat list \<Rightarrow> nat list \<Rightarrow> nat" where
  "flat_index (d # ds) (i # is) = i * prod_list ds + flat_index ds is"
| "flat_index _ _ = 0"

definition valid_index :: "nat list \<Rightarrow> nat list \<Rightarrow> bool" where
  "valid_index sh idx = (length idx = length sh \<and> list_all2 (<) idx sh)"

definition tensor_at :: "'a tensor \<Rightarrow> nat list \<Rightarrow> 'a" where
  "tensor_at t idx = elems t ! flat_index (shape t) idx"

text \<open>
  \<^verbatim>\<open>t.permute(perm)\<close>: dimension \<open>k\<close> of the result is dimension \<open>perm ! k\<close> of \<open>t\<close>, so the
  result at multi-index \<open>j\<close> is \<open>t\<close> at the multi-index \<open>i\<close> with \<open>i ! (perm ! k) = j ! k\<close>.
  Raises unless \<open>perm\<close> is a permutation of the dimensions of \<open>t\<close>.
\<close>

definition position_of :: "nat \<Rightarrow> nat list \<Rightarrow> nat" where
  "position_of d perm = length (takeWhile (\<lambda>p. p \<noteq> d) perm)"

definition source_index :: "nat list \<Rightarrow> nat list \<Rightarrow> nat list" where
  "source_index perm j = map (\<lambda>d. j ! position_of d perm) [0..<length perm]"

definition permute :: "'a tensor \<Rightarrow> nat list \<Rightarrow> error + 'a tensor" where
  "permute t perm =
     (if sort perm \<noteq> [0..<length (shape t)] then Inl PermuteError
      else
        (let sh = map ((!) (shape t)) perm in
         Inr \<lparr>shape = sh,
              elems = map (\<lambda>j. tensor_at t (source_index perm j)) (all_indices sh)\<rparr>))"

section \<open>GridNet\<close>

text \<open>
  The patch classifier is a collaborator of the program: a callable from a batch of
  patches to a batch of class scores, with named parameters that each carry a
  \<^verbatim>\<open>requires_grad\<close> flag.
\<close>

record ('a, 'b) classifier =
  run :: "'a tensor \<Rightarrow> 'b tensor"
  named_parameters :: "(string \<times> bool) list"

text \<open>Layers of a corrector, with the channel counts they are built with.\<close>

datatype layer =
    Conv2d nat nat nat nat
  | HexConv2d nat nat nat nat
  | BatchNorm2d nat
  | ReLU

record ('a, 'b) gridnet =
  patch_shape :: "nat list"
  grid_shape :: "nat list"
  n_classes :: nat
  patch_classifier :: "('a, 'b) classifier"
  use_bn :: bool
  atonce_patch_limit :: "int option"
  corrector :: "layer list"
  bg_const :: "'b grad_tensor"
  dummy_tensor :: "'b grad_tensor"

text \<open>\<^verbatim>\<open>GridNet._init_corrector\<close>: \<open>Conv2d cin cout kernel padding\<close>.\<close>

definition init_corrector :: "nat \<Rightarrow> bool \<Rightarrow> layer list" where
  "init_corrector n bn =
     [Conv2d n n 3 1] @ (if bn then [BatchNorm2d n] else []) @ [ReLU] @
     [Conv2d n n 5 2] @ (if bn then [BatchNorm2d n] else []) @ [ReLU] @
     [Conv2d n n 5 2] @ (if bn then [BatchNorm2d n] else []) @ [ReLU] @
     [Conv2d n n 3 1]"

text \<open>\<^verbatim>\<open>GridNetHex._init_corrector\<close>: \<open>HexConv2d cin cout kernel stride\<close>.\<close>

definition init_corrector_hex :: "nat \<Rightarrow> bool \<Rightarrow> layer list" where
  "init_corrector_hex n bn =
     [HexConv2d n 32 1 1, HexConv2d 32 32 1 1] @
     (if bn then [BatchNorm2d n] else []) @ [ReLU] @
     [HexConv2d 32 32 1 1, HexConv2d 32 32 1 1] @
     (if bn then [BatchNorm2d n] else []) @ [ReLU] @
     [HexConv2d 32 n 1 1]"

text \<open>\<^verbatim>\<open>GridNet.__init__\<close> and \<^verbatim>\<open>GridNetHex.__init__\<close>; the latter differs in the corrector
  only. \<^verbatim>\<open>bg\<close> is \<^verbatim>\<open>zeros((1, n_classes))\<close> and \<^verbatim>\<open>dummy\<close> is \<^verbatim>\<open>ones(1)\<close>, both created
  with \<^verbatim>\<open>requires_grad=True\<close>.\<close>

definition gridnet_init ::
  "(nat \<Rightarrow> bool \<Rightarrow> layer list) \<Rightarrow> ('a, 'b::{zero,one}) classifier \<Rightarrow> nat list \<Rightarrow> nat list \<Rightarrow>
     nat \<Rightarrow> bool \<Rightarrow> int option \<Rightarrow> ('a, 'b) gridnet" where
  "gridnet_init build pc pshape gshape n bn limit =
     \<lparr>patch_shape = pshape, grid_shape = gshape, n_classes = n, patch_classifier = pc,
      use_bn = bn, atonce_patch_limit = limit, corrector = build n bn,
      bg_const = \<lparr>contents = \<lparr>shape = [1, n], elems = replicate n 0\<rparr>, requires_grad = True\<rparr>,
      dummy_tensor = \<lparr>contents = \<lparr>shape = [1], elems = [1]\<rparr>, requires_grad = True\<rparr>\<rparr>"

definition GridNet ::
  "('a, 'b::{zero,one}) classifier \<Rightarrow> nat list \<Rightarrow> nat list \<Rightarrow> nat \<Rightarrow> bool \<Rightarrow> int option \<Rightarrow>
     ('a, 'b) gridnet" where
  "GridNet = gridnet_init init_corrector"

definition GridNetHex ::
  "('a, 'b::{zero,one}) classifier \<Rightarrow> nat list \<Rightarrow> nat list \<Rightarrow> nat \<Rightarrow> bool \<Rightarrow> int option \<Rightarrow>
     ('a, 'b) gridnet" where
  "GridNetHex = gridnet_init init_corrector_hex"

text \<open>\<^verbatim>\<open>GridNet.foreground_classifier\<close>. \<^verbatim>\<open>torch.max\<close> of a tensor without elements
  raises.\<close>

definition foreground_classifier ::
  "('a::{linorder,zero}, 'b) gridnet \<Rightarrow> 'a tensor \<Rightarrow> error + 'b tensor" where
  "foreground_classifier g x =
     (case elems x of
        [] \<Rightarrow> Inl MaxEmptyError
      | v # vs \<Rightarrow>
          if fold max vs v = 0 then Inr (contents (bg_const g))
          else Inr (run (patch_classifier g) (unsqueeze0 x)))"

text \<open>\<^verbatim>\<open>GridNet._ppl\<close>: the assertion on the second argument, then the classifier on the
  whole batch.\<close>

definition ppl ::
  "('a, 'b) gridnet \<Rightarrow> 'a tensor \<Rightarrow> 'b grad_tensor option \<Rightarrow> error + 'b tensor" where
  "ppl g patch_list dummy_arg =
     (case dummy_arg of
        None \<Rightarrow> Inl AssertionError
      | Some _ \<Rightarrow> Inr (run (patch_classifier g) patch_list))"

text \<open>
  One call of \<^verbatim>\<open>_ppl\<close> as \<^verbatim>\<open>patch_predictions\<close> makes it: directly, or through
  \<^verbatim>\<open>cp.checkpoint\<close>, whose forward value is the value of the wrapped call. The record
  of the call keeps how it was made and what it was given.
\<close>

record 'b ppl_call =
  checkpointed :: bool
  rows :: nat
  dummy_arg_of :: "'b grad_tensor option"

definition call_direct ::
  "('a, 'b) gridnet \<Rightarrow> 'a tensor \<Rightarrow> 'b grad_tensor option \<Rightarrow> (error + 'b tensor) \<times> 'b ppl_call" where
  "call_direct g t d = (ppl g t d, \<lparr>checkpointed = False, rows = len t, dummy_arg_of = d\<rparr>)"

definition call_checkpoint ::
  "('a, 'b) gridnet \<Rightarrow> 'a tensor \<Rightarrow> 'b grad_tensor option \<Rightarrow> (error + 'b tensor) \<times> 'b ppl_call" where
  "call_checkpoint g t d = (ppl g t d, \<lparr>checkpointed = True, rows = len t, dummy_arg_of = d\<rparr>)"

text \<open>The body of the chunking loop after \<^verbatim>\<open>narrow\<close>: lines 87 to 90.\<close>

definition classify_chunk ::
  "('a, 'b) gridnet \<Rightarrow> 'a tensor \<Rightarrow> (error + 'b tensor) \<times> 'b ppl_call" where
  "classify_chunk g tmp =
     (if list_ex snd (named_parameters (patch_classifier g))
      then call_checkpoint g tmp (Some (dummy_tensor g))
      else call_direct g tmp (Some (dummy_tensor g)))"

text \<open>
  The \<^verbatim>\<open>while\<close> loop of \<^verbatim>\<open>patch_predictions\<close>, with the chunks and the calls made so far.
  The loop need not terminate: \<open>None\<close> is the run that never leaves it.
\<close>

partial_function (option) chunk_loop ::
  "('a, 'b) gridnet \<Rightarrow> int \<Rightarrow> 'a tensor \<Rightarrow> 'b tensor list \<Rightarrow> int \<Rightarrow> 'b ppl_call list \<Rightarrow>
     ((error + 'b tensor list) \<times> 'b ppl_call list) option" where
  "chunk_loop g limit patch_list cp_chunks count calls =
     (if count < int (len patch_list) then
        (case narrow0 patch_list count (min limit (int (len patch_list) - count)) of
           Inl e \<Rightarrow> Some (Inl e, calls)
         | Inr tmp \<Rightarrow>
             (case classify_chunk g tmp of
                (Inl e, c) \<Rightarrow> Some (Inl e, calls @ [c])
              | (Inr chunk, c) \<Rightarrow>
                  chunk_loop g limit patch_list (cp_chunks @ [chunk]) (count + limit)
                    (calls @ [c])))
      else Some (Inr cp_chunks, calls))"

declare chunk_loop.simps [code]

text \<open>Lines 96 and 97: back to the grid, classes first.\<close>

definition to_grid :: "('a, 'b) gridnet \<Rightarrow> 'b tensor \<Rightarrow> error + 'b tensor" where
  "to_grid g patch_pred_list =
     (case reshape_infer patch_pred_list (grid_shape g @ [n_classes g]) of
        Inl e \<Rightarrow> Inl e
      | Inr patch_pred_grid \<Rightarrow> permute patch_pred_grid [0, 3, 1, 2])"

text \<open>\<^verbatim>\<open>GridNet.patch_predictions\<close>: the result, or the error raised, with the calls of
  \<^verbatim>\<open>_ppl\<close> made on the way.\<close>

definition patch_predictions ::
  "('a, 'b) gridnet \<Rightarrow> 'a tensor \<Rightarrow> ((error + 'b tensor) \<times> 'b ppl_call list) option" where
  "patch_predictions g x =
     (case reshape_infer x (patch_shape g) of
        Inl e \<Rightarrow> Some (Inl e, [])
      | Inr patch_list \<Rightarrow>
          (case atonce_patch_limit g of
             None \<Rightarrow>
               (case call_direct g patch_list (Some (dummy_tensor g)) of
                  (Inl e, c) \<Rightarrow> Some (Inl e, [c])
                | (Inr patch_pred_list, c) \<Rightarrow> Some (to_grid g patch_pred_list, [c]))
           | Some limit \<Rightarrow>
               (case chunk_loop g limit patch_list [] 0 [] of
                  None \<Rightarrow> None
                | Some (Inl e, calls) \<Rightarrow> Some (Inl e, calls)
                | Some (Inr cp_chunks, calls) \<Rightarrow>
                    (case cat0 cp_chunks of
                       Inl e \<Rightarrow> Some (Inl e, calls)
                     | Inr patch_pred_list \<Rightarrow> Some (to_grid g patch_pred_list, calls)))))"

section \<open>The training loop\<close>

datatype phase = Train | Val

text \<open>What the optimizers are asked to do, in order.\<close>

datatype event = Backward | Step | ZeroGrad | FStep | FZeroGrad

text \<open>What \<^verbatim>\<open>torch.save\<close> is given: a state dictionary of the model, the state of one
  optimizer, or a dictionary of optimizer states.\<close>

datatype ('w, 'o) saved = SavedWeights 'w | SavedOpt 'o | SavedOptDict "(string \<times> 'o) list"

text \<open>An accuracy is a quotient of counts; \<open>0 / 0\<close> is not a number.\<close>

datatype acc = NaN | Acc real

definition acc_gt :: "acc \<Rightarrow> real \<Rightarrow> bool" where
  "acc_gt a b = (case a of NaN \<Rightarrow> False | Acc v \<Rightarrow> v > b)"

text \<open>
  The collaborators of \<^verbatim>\<open>train_model\<close>: the model and the optimizers are objects of the
  tensor library, and the criterion and the AUROC function are passed in or imported.
  Floating-point numbers are idealised as reals.
  \<^item> \<open>state_dict\<close>, \<open>load_state_dict\<close>: the parameters and buffers of a model;
  \<^item> \<open>set_mode\<close>: \<^verbatim>\<open>model.train()\<close> or \<^verbatim>\<open>model.eval()\<close>, then \<^verbatim>\<open>model.patch_classifier.eval()\<close>;
  \<^item> \<open>unfreeze\<close>: \<^verbatim>\<open>requires_grad = True\<close> on every parameter of the patch classifier;
  \<^item> \<open>forward\<close>: \<^verbatim>\<open>model(inputs)\<close> under \<^verbatim>\<open>set_grad_enabled(phase == 'train')\<close>;
  \<^item> \<open>backward\<close>: \<^verbatim>\<open>loss.backward()\<close> for the loss of these inputs and labels, scaled by
    \<^verbatim>\<open>1 / accum_iters\<close>, adding to the gradients the model holds;
  \<^item> \<open>step\<close>, \<open>zero_grad\<close>: of an optimizer over the parameters of the model.
\<close>

record ('m, 'w, 'o, 'a, 'b) torch =
  state_dict :: "'m \<Rightarrow> 'w"
  load_state_dict :: "'w \<Rightarrow> 'm \<Rightarrow> 'm"
  set_mode :: "phase \<Rightarrow> 'm \<Rightarrow> 'm"
  unfreeze :: "'m \<Rightarrow> 'm"
  forward :: "phase \<Rightarrow> 'm \<Rightarrow> 'a tensor \<Rightarrow> error + ('b tensor \<times> 'm)"
  backward :: "'a tensor \<Rightarrow> int tensor \<Rightarrow> int \<Rightarrow> 'm \<Rightarrow> 'm"
  step :: "'o \<Rightarrow> 'm \<Rightarrow> 'o \<times> 'm"
  zero_grad :: "'o \<Rightarrow> 'm \<Rightarrow> 'm"
  argmax :: "'b list \<Rightarrow> int"
  softmax :: "'b list \<Rightarrow> real list"
  class_auroc :: "real list list \<Rightarrow> int list \<Rightarrow> error + real list"

text \<open>A data loader: the size of its dataset, and the batches of one pass (a loader may
  shuffle, so the pass depends on the epoch).\<close>

record 'a loader =
  dataset_len :: nat
  batches :: "nat \<Rightarrow> ('a tensor \<times> int tensor) list"

record ('m, 'w, 'o) train_state =
  model :: 'm
  optimizer :: 'o
  f_opt :: "'o option"
  best_model_wts :: 'w
  best_acc :: real
  val_acc_history :: "acc list"
  written :: "(string \<times> ('w, 'o) saved) list"
  events :: "event list"

record running =
  running_loss :: real
  running_corrects :: nat
  running_foreground :: nat
  epoch_labels :: "int list list"
  epoch_softmax :: "real list list list"

text \<open>Lines 206 to 211: the running statistics at the start of a phase.\<close>

definition running0 :: running where
  "running0 = \<lparr>running_loss = 0, running_corrects = 0, running_foreground = 0,
                epoch_labels = [], epoch_softmax = []\<rparr>"

text \<open>Indexing with a boolean mask, \<^verbatim>\<open>xs[mask]\<close>: the mask must be as long as \<open>xs\<close>.\<close>

definition mask_select :: "'c list \<Rightarrow> bool list \<Rightarrow> error + 'c list" where
  "mask_select xs keep =
     (if length keep \<noteq> length xs then Inl IndexError
      else Inr (map fst (filter snd (zip xs keep))))"

text \<open>Lines 227 to 231: the assertion on the spatial dimensions, then predictions as
  rows of class scores and labels as a flat list.\<close>

definition flatten_batch :: "'b tensor \<Rightarrow> int tensor \<Rightarrow> error + ('b list list \<times> int list)" where
  "flatten_batch outputs labels =
     (let so = shape outputs; sl = shape labels in
      if length so < 3 \<or> length sl < 2 then Inl IndexError
      else if so ! 2 \<noteq> sl ! 1 then Inl AssertionError
      else if length so < 4 \<or> length sl < 3 then Inl IndexError
      else if so ! 3 \<noteq> sl ! 2 then Inl AssertionError
      else
        (case permute outputs [0, 2, 3, 1] of
           Inl e \<Rightarrow> Inl e
         | Inr outputs1 \<Rightarrow>
             (case reshape_infer outputs1 [last (shape outputs1)] of
                Inl e \<Rightarrow> Inl e
              | Inr outputs2 \<Rightarrow>
                  (case reshape_infer labels [] of
                     Inl e \<Rightarrow> Inl e
                   | Inr labels1 \<Rightarrow> Inr (rows_of outputs2, elems labels1)))))"

text \<open>Lines 232 to 234: keep the positions whose label is positive, then shift the
  labels kept down by one.\<close>

definition mask_foreground ::
  "'c list \<Rightarrow> int list \<Rightarrow> error + ('c list \<times> int list)" where
  "mask_foreground outputs labels =
     (case mask_select outputs (map (\<lambda>l. l > 0) labels) of
        Inl e \<Rightarrow> Inl e
      | Inr outputs1 \<Rightarrow>
          (case mask_select labels (map (\<lambda>l. l > 0) labels) of
             Inl e \<Rightarrow> Inl e
           | Inr labels1 \<Rightarrow> Inr (outputs1, map (\<lambda>l. l - 1) labels1)))"

text \<open>Lines 236 to 241 and 255 to 257: the loss of the batch and the running
  statistics of the epoch, from the rows and labels kept.\<close>

definition batch_loss ::
  "('b list list \<Rightarrow> int list \<Rightarrow> real) \<Rightarrow> int \<Rightarrow> 'b list list \<Rightarrow> int list \<Rightarrow> real" where
  "batch_loss criterion accum_iters outputs labels = criterion outputs labels / real_of_int accum_iters"

definition update_running ::
  "('m, 'w, 'o, 'a, 'b) torch \<Rightarrow> real \<Rightarrow> nat \<Rightarrow> 'b list list \<Rightarrow> int list \<Rightarrow> running \<Rightarrow> running" where
  "update_running T loss size0 outputs labels r =
     (let preds = map (argmax T) outputs in
      \<lparr>running_loss = running_loss r + loss * real size0,
       running_corrects =
         running_corrects r + length (filter (\<lambda>(p, l). p = l) (zip preds labels)),
       running_foreground = running_foreground r + length labels,
       epoch_labels = epoch_labels r @ [labels],
       epoch_softmax = epoch_softmax r @ [map (softmax T) outputs]\<rparr>)"

definition batch_statistics ::
  "('m, 'w, 'o, 'a, 'b) torch \<Rightarrow> ('b list list \<Rightarrow> int list \<Rightarrow> real) \<Rightarrow> int \<Rightarrow> nat \<Rightarrow>
     'b list list \<Rightarrow> int list \<Rightarrow> running \<Rightarrow> error + (real \<times> running)" where
  "batch_statistics T criterion accum_iters size0 outputs labels r =
     (case mask_foreground outputs labels of
        Inl e \<Rightarrow> Inl e
      | Inr (outputs1, labels1) \<Rightarrow>
          (let loss = batch_loss criterion accum_iters outputs1 labels1 in
           Inr (loss, update_running T loss size0 outputs1 labels1 r)))"

text \<open>Lines 244 to 252: backpropagation, and the optimizers every \<^verbatim>\<open>accum_iters\<close> batches.\<close>

definition optimize ::
  "('m, 'w, 'o, 'a, 'b) torch \<Rightarrow> int \<Rightarrow> nat \<Rightarrow> 'a tensor \<Rightarrow> int tensor \<Rightarrow>
     ('m, 'w, 'o) train_state \<Rightarrow> error + ('m, 'w, 'o) train_state" where
  "optimize T accum_iters batch_ind inputs labels st =
     (let st1 = st\<lparr>model := backward T inputs labels accum_iters (model st),
                   events := events st @ [Backward]\<rparr> in
      if accum_iters = 0 then Inl ZeroDivisionError
      else if int batch_ind mod accum_iters = 0 then
        (let (opt1, m1) = step T (optimizer st1) (model st1);
             st2 = st1\<lparr>model := zero_grad T opt1 m1, optimizer := opt1,
                       events := events st1 @ [Step, ZeroGrad]\<rparr> in
         case f_opt st2 of
           None \<Rightarrow> Inr st2
         | Some f \<Rightarrow>
             (let (f1, m2) = step T f (model st2) in
              Inr (st2\<lparr>model := zero_grad T f1 m2, f_opt := Some f1,
                       events := events st2 @ [FStep, FZeroGrad]\<rparr>)))
      else Inr st1)"

text \<open>The body of the loop over the batches of a phase: lines 215 to 257.\<close>

definition train_batch ::
  "('m, 'w, 'o, 'a, 'b) torch \<Rightarrow> ('b list list \<Rightarrow> int list \<Rightarrow> real) \<Rightarrow> int \<Rightarrow> phase \<Rightarrow>
     nat \<Rightarrow> 'a tensor \<times> int tensor \<Rightarrow> ('m, 'w, 'o) train_state \<times> running \<Rightarrow>
     error + (('m, 'w, 'o) train_state \<times> running)" where
  "train_batch T criterion accum_iters ph batch_ind batch sr =
     (let (inputs, labels) = batch; (st, r) = sr in
      case forward T ph (model st) inputs of
        Inl e \<Rightarrow> Inl e
      | Inr (outputs, m1) \<Rightarrow>
          (case flatten_batch outputs labels of
             Inl e \<Rightarrow> Inl e
           | Inr (outputs1, labels1) \<Rightarrow>
               (case batch_statistics T criterion accum_iters (len inputs) outputs1 labels1 r of
                  Inl e \<Rightarrow> Inl e
                | Inr (loss, r1) \<Rightarrow>
                    (let st1 = st\<lparr>model := m1\<rparr> in
                     if ph = Train then
                       (case optimize T accum_iters batch_ind inputs labels st1 of
                          Inl e \<Rightarrow> Inl e
                        | Inr st2 \<Rightarrow> Inr (st2, r1))
                     else Inr (st1, r1)))))"

text \<open>\<^verbatim>\<open>for batch_ind, (inputs, labels) in enumerate(dataloaders[phase])\<close>.\<close>

fun run_batches ::
  "('m, 'w, 'o, 'a, 'b) torch \<Rightarrow> ('b list list \<Rightarrow> int list \<Rightarrow> real) \<Rightarrow> int \<Rightarrow> phase \<Rightarrow>
     nat \<Rightarrow> ('a tensor \<times> int tensor) list \<Rightarrow> ('m, 'w, 'o) train_state \<times> running \<Rightarrow>
     error + (('m, 'w, 'o) train_state \<times> running)" where
  "run_batches T criterion accum_iters ph batch_ind [] sr = Inr sr"
| "run_batches T criterion accum_iters ph batch_ind (b # bs) sr =
     (case train_batch T criterion accum_iters ph batch_ind b sr of
        Inl e \<Rightarrow> Inl e
      | Inr sr1 \<Rightarrow> run_batches T criterion accum_iters ph (Suc batch_ind) bs sr1)"

text \<open>\<^verbatim>\<open>os.path.splitext(p)[0]\<close> on a POSIX path: the path without the extension of its
  last component, where leading dots of that component do not start an extension.\<close>

definition rfind :: "char \<Rightarrow> string \<Rightarrow> int" where
  "rfind c p = int (length p) - 1 - int (length (takeWhile (\<lambda>x. x \<noteq> c) (rev p)))"

definition splitext_root :: "string \<Rightarrow> string" where
  "splitext_root p =
     (let sepIndex = (if CHR ''/'' \<in> set p then rfind CHR ''/'' p else -1);
          dotIndex = (if CHR ''.'' \<in> set p then rfind CHR ''.'' p else -1) in
      if dotIndex > sepIndex \<and>
         list_ex (\<lambda>x. x \<noteq> CHR ''.'') (take (nat (dotIndex - (sepIndex + 1))) (drop (nat (sepIndex + 1)) p))
      then take (nat dotIndex) p
      else p)"

text \<open>Lines 272 to 283: a new best validation accuracy.\<close>

definition save_best ::
  "('m, 'w, 'o, 'a, 'b) torch \<Rightarrow> string option \<Rightarrow> acc \<Rightarrow> ('m, 'w, 'o) train_state \<Rightarrow>
     ('m, 'w, 'o) train_state" where
  "save_best T outfile epoch_acc st =
     (case epoch_acc of
        NaN \<Rightarrow> st
      | Acc a \<Rightarrow>
          (let st1 = st\<lparr>best_acc := a, best_model_wts := state_dict T (model st)\<rparr> in
           case outfile of
             None \<Rightarrow> st1
           | Some path \<Rightarrow>
               st1\<lparr>written := written st1 @
                     [(path, SavedWeights (state_dict T (model st))),
                      (splitext_root path @ ''.opt'',
                       (case f_opt st of
                          Some f \<Rightarrow> SavedOptDict [(''g_opt'', optimizer st), (''f_opt'', f)]
                        | None \<Rightarrow> SavedOpt (optimizer st)))]\<rparr>))"

text \<open>Lines 260 to 285: the end of a phase. Dividing the running loss by the size of an
  empty dataset raises, and so does \<^verbatim>\<open>running_corrects.double()\<close> when no batch has made
  the count a tensor.\<close>

definition epoch_acc_of :: "running \<Rightarrow> acc" where
  "epoch_acc_of r =
     (if running_foreground r = 0 then NaN
      else Acc (real (running_corrects r) / real (running_foreground r)))"

definition phase_end ::
  "('m, 'w, 'o, 'a, 'b) torch \<Rightarrow> string option \<Rightarrow> phase \<Rightarrow> nat \<Rightarrow> running \<Rightarrow>
     ('m, 'w, 'o) train_state \<Rightarrow> error + ('m, 'w, 'o) train_state" where
  "phase_end T outfile ph n r st =
     (if n = 0 then Inl ZeroDivisionError
      else if epoch_labels r = [] then Inl AttributeError
      else
        (let epoch_acc = epoch_acc_of r in
         case class_auroc T (concat (epoch_softmax r)) (concat (epoch_labels r)) of
           Inl e \<Rightarrow> Inl e
         | Inr auroc \<Rightarrow>
             (let st1 = (if ph = Val \<and> acc_gt epoch_acc (best_acc st)
                         then save_best T outfile epoch_acc st else st) in
              Inr (if ph = Val
                   then st1\<lparr>val_acc_history := val_acc_history st1 @ [epoch_acc]\<rparr>
                   else st1))))"

text \<open>Lines 195 to 285: one phase of one epoch.\<close>

definition run_phase ::
  "('m, 'w, 'o, 'a, 'b) torch \<Rightarrow> (phase \<Rightarrow> 'a loader) \<Rightarrow> ('b list list \<Rightarrow> int list \<Rightarrow> real) \<Rightarrow>
     string option \<Rightarrow> bool \<Rightarrow> int \<Rightarrow> nat \<Rightarrow> phase \<Rightarrow> ('m, 'w, 'o) train_state \<Rightarrow>
     error + ('m, 'w, 'o) train_state" where
  "run_phase T dataloaders criterion outfile finetune accum_iters epoch ph st =
     (let m1 = set_mode T ph (model st);
          m2 = (if finetune \<and> ph = Train then unfreeze T m1 else m1);
          r0 = running0 in
      case run_batches T criterion accum_iters ph 0 (batches (dataloaders ph) epoch)
             (st\<lparr>model := m2\<rparr>, r0) of
        Inl e \<Rightarrow> Inl e
      | Inr (st1, r) \<Rightarrow> phase_end T outfile ph (dataset_len (dataloaders ph)) r st1)"

text \<open>\<^verbatim>\<open>for epoch in range(num_epochs): for phase in ['train', 'val']\<close>.\<close>

fun run_epochs ::
  "('m, 'w, 'o, 'a, 'b) torch \<Rightarrow> (phase \<Rightarrow> 'a loader) \<Rightarrow> ('b list list \<Rightarrow> int list \<Rightarrow> real) \<Rightarrow>
     string option \<Rightarrow> bool \<Rightarrow> int \<Rightarrow> nat list \<Rightarrow> ('m, 'w, 'o) train_state \<Rightarrow>
     error + ('m, 'w, 'o) train_state" where
  "run_epochs T dataloaders criterion outfile finetune accum_iters [] st = Inr st"
| "run_epochs T dataloaders criterion outfile finetune accum_iters (epoch # es) st =
     (case run_phase T dataloaders criterion outfile finetune accum_iters epoch Train st of
        Inl e \<Rightarrow> Inl e
      | Inr st1 \<Rightarrow>
          (case run_phase T dataloaders criterion outfile finetune accum_iters epoch Val st1 of
             Inl e \<Rightarrow> Inl e
           | Inr st2 \<Rightarrow>
               run_epochs T dataloaders criterion outfile finetune accum_iters es st2))"

text \<open>\<^verbatim>\<open>train_model\<close>. The result is the final state: its \<open>model\<close> and its
  \<open>val_acc_history\<close> are what the function returns, \<open>written\<close> is what it saved, in
  order.\<close>

definition train_model ::
  "('m, 'w, 'o, 'a, 'b) torch \<Rightarrow> 'm \<Rightarrow> (phase \<Rightarrow> 'a loader) \<Rightarrow>
     ('b list list \<Rightarrow> int list \<Rightarrow> real) \<Rightarrow> 'o \<Rightarrow> nat \<Rightarrow> string option \<Rightarrow> 'o option \<Rightarrow> bool \<Rightarrow>
     int \<Rightarrow> error + ('m, 'w, 'o) train_state" where
  "train_model T model0 dataloaders criterion optimizer0 num_epochs outfile f_opt0 finetune
       accum_iters =
     (let st0 = \<lparr>model = model0, optimizer = optimizer0, f_opt = f_opt0,
                 best_model_wts = state_dict T model0, best_acc = 0,
                 val_acc_history = [], written = [], events = []\<rparr> in
      case run_epochs T dataloaders criterion outfile finetune accum_iters [0..<num_epochs] st0 of
        Inl e \<Rightarrow> Inl e
      | Inr st \<Rightarrow> Inr (st\<lparr>model := load_state_dict T (best_model_wts st) (model st)\<rparr>))"

section \<open>Specifications the program is compared with\<close>

text \<open>
  Modelled from the spec: the patch classifier (the module \<^verbatim>\<open>patch_classifier\<close> is not
  among the sources). The spec describes it as a callable taking a batch of patches
  \<open>(n, channels, patch_h, patch_w)\<close> and returning \<open>(n, n_classes)\<close> logits, each patch
  being classified independently: the scores of a range of patches are that range of the
  scores of the batch.
\<close>

definition batch_classifier :: "('a tensor \<Rightarrow> 'b tensor) \<Rightarrow> nat list \<Rightarrow> nat \<Rightarrow> bool" where
  "batch_classifier f pshape n =
     (\<forall>t. wf_tensor t \<and> shape t = len t # pshape \<longrightarrow>
        wf_tensor (f t) \<and> shape (f t) = [len t, n] \<and>
        (\<forall>s l. s + l \<le> len t \<longrightarrow> f (slice_rows t s l) = slice_rows (f t) s l))"

text \<open>A classifier of that kind: a scoring function applied to each patch on its own.\<close>

definition per_patch :: "('a list \<Rightarrow> 'b list) \<Rightarrow> nat \<Rightarrow> 'a tensor \<Rightarrow> 'b tensor" where
  "per_patch f n t = \<lparr>shape = [len t, n], elems = concat (map f (rows_of t))\<rparr>"

text \<open>
  The partition the spec describes: contiguous chunks of at most \<open>L\<close> patches, the last one
  possibly smaller, as pairs of a first row and a number of rows, from row \<open>c\<close> on.
\<close>

function chunk_bounds :: "nat \<Rightarrow> nat \<Rightarrow> nat \<Rightarrow> (nat \<times> nat) list" where
  "chunk_bounds L n c =
     (if 0 < L \<and> c < n then (c, min L (n - c)) # chunk_bounds L n (c + L) else [])"
  by pat_completeness auto
termination
  by (relation "measure (\<lambda>(L, n, c). n - c)") auto

declare chunk_bounds.simps [simp del]

text \<open>
  The channels of a corrector: a convolution and a batch normalisation raise on an
  input whose channel count is not the one they were built for; the result is the
  channel count of the output.
\<close>

fun layer_channels :: "layer \<Rightarrow> nat \<Rightarrow> error + nat" where
  "layer_channels (Conv2d cin cout k p) c = (if c = cin then Inr cout else Inl (ChannelError cin c))"
| "layer_channels (HexConv2d cin cout k s) c = (if c = cin then Inr cout else Inl (ChannelError cin c))"
| "layer_channels (BatchNorm2d n) c = (if c = n then Inr c else Inl (ChannelError n c))"
| "layer_channels ReLU c = Inr c"

fun corrector_channels :: "layer list \<Rightarrow> nat \<Rightarrow> error + nat" where
  "corrector_channels [] c = Inr c"
| "corrector_channels (l # ls) c =
     (case layer_channels l c of Inl e \<Rightarrow> Inl e | Inr c1 \<Rightarrow> corrector_channels ls c1)"

text \<open>A call of \<^verbatim>\<open>_ppl\<close> as the chunking loop makes it: with the dummy tensor of the
  network, and checkpointed exactly when a parameter of the classifier requires a
  gradient.\<close>

definition tracked_call :: "('a, 'b) gridnet \<Rightarrow> 'b ppl_call \<Rightarrow> bool" where
  "tracked_call g c =
     (dummy_arg_of c = Some (dummy_tensor g) \<and>
      checkpointed c = list_ex snd (named_parameters (patch_classifier g)))"

text \<open>The basename of a POSIX path: what follows its last slash.\<close>

definition basename :: "string \<Rightarrow> string" where
  "basename p = rev (takeWhile (\<lambda>x. x \<noteq> CHR ''/'') (rev p))"

text \<open>The events of the optimizers on one batch of the train phase on which they step.\<close>

definition step_events :: "'o option \<Rightarrow> event list" where
  "step_events f = [Step, ZeroGrad] @ (case f of None \<Rightarrow> [] | Some _ \<Rightarrow> [FStep, FZeroGrad])"

text \<open>Two states of the training loop with the same best accuracy, best weights,
  saved files and history of validation accuracies.\<close>

definition same_checkpoint :: "('m, 'w, 'o) train_state \<Rightarrow> ('m, 'w, 'o) train_state \<Rightarrow> bool" where
  "same_checkpoint st st' =
     (best_acc st' = best_acc st \<and> best_model_wts st' = best_model_wts st \<and>
      written st' = written st \<and> val_acc_history st' = val_acc_history st)"



section \<open>A small instance\<close>

text \<open>A classifier with two classes that scores a patch by the sum and the largest of
  its elements, and a 2 by 2 grid of patches of shape \<open>(1, 1, 2)\<close>.\<close>

definition demo_score :: "int list \<Rightarrow> int list" where
  "demo_score p = [sum_list p, fold max p 0]"

definition demo_classifier :: "bool \<Rightarrow> (int, int) classifier" where
  "demo_classifier trainable =
     \<lparr>run = per_patch demo_score 2,
      named_parameters = [(''conv.weight'', trainable), (''conv.bias'', False)]\<rparr>"

definition demo_net :: "bool \<Rightarrow> int option \<Rightarrow> (int, int) gridnet" where
  "demo_net trainable limit = GridNet (demo_classifier trainable) [1, 1, 2] [2, 2] 2 True limit"

definition demo_input :: "int tensor" where
  "demo_input = \<lparr>shape = [1, 2, 2, 1, 1, 2], elems = [1, 2, 3, 4, 5, 6, 7, 8]\<rparr>"

definition demo_patches :: "int tensor" where
  "demo_patches = \<lparr>shape = [10, 1, 1, 2], elems = map int [0..<20]\<rparr>"

text \<open>
  A model with one weight and one accumulated gradient, which returns its input as its
  scores; an optimizer that counts its steps and adds the gradient to the weight; three
  training batches and one validation batch per epoch.
\<close>

record toy_model =
  weights :: int
  grad :: int
  trainable :: bool
  training :: bool

definition first_max :: "int list \<Rightarrow> int" where
  "first_max row = int (length (takeWhile (\<lambda>v. v \<noteq> fold max row (hd row)) row))"

definition toy_torch :: "(toy_model, int, nat, int, int) torch" where
  "toy_torch =
     \<lparr>state_dict = weights,
      load_state_dict = (\<lambda>w m. m\<lparr>weights := w\<rparr>),
      set_mode = (\<lambda>ph m. m\<lparr>training := (ph = Train)\<rparr>),
      unfreeze = (\<lambda>m. m\<lparr>trainable := True\<rparr>),
      forward = (\<lambda>ph m x. Inr (x, m)),
      backward = (\<lambda>x l k m. m\<lparr>grad := grad m + 1\<rparr>),
      step = (\<lambda>opt m. (Suc opt, m\<lparr>weights := weights m + grad m\<rparr>)),
      zero_grad = (\<lambda>opt m. m\<lparr>grad := 0\<rparr>),
      argmax = first_max,
      softmax = map real_of_int,
      class_auroc = (\<lambda>scores labels. Inr [])\<rparr>"

definition toy_criterion :: "int list list \<Rightarrow> int list \<Rightarrow> real" where
  "toy_criterion outputs labels = real (length labels)"

definition toy_model0 :: toy_model where
  "toy_model0 = \<lparr>weights = 0, grad = 0, trainable = False, training = False\<rparr>"

text \<open>One grid of 1 by 2 cells with two classes: the scores are (5, 2) for the first cell
  and (1, 7) for the second.\<close>

definition toy_inputs :: "int tensor" where
  "toy_inputs = \<lparr>shape = [1, 2, 1, 2], elems = [5, 1, 2, 7]\<rparr>"

definition toy_batch :: "int list \<Rightarrow> int tensor \<times> int tensor" where
  "toy_batch labels = (toy_inputs, \<lparr>shape = [1, 1, 2], elems = labels\<rparr>)"

definition toy_loaders :: "int list \<Rightarrow> phase \<Rightarrow> int loader" where
  "toy_loaders val_labels ph =
     (case ph of
        Train \<Rightarrow> \<lparr>dataset_len = 3, batches = (\<lambda>epoch. [toy_batch [1, 0], toy_batch [1, 2], toy_batch [0, 2]])\<rparr>
      | Val \<Rightarrow> \<lparr>dataset_len = 1, batches = (\<lambda>epoch. [toy_batch val_labels])\<rparr>)"

text \<open>A state of the training loop before a phase, with a best accuracy and a second
  optimizer to choose.\<close>

definition toy_state :: "real \<Rightarrow> nat option \<Rightarrow> (toy_model, int, nat) train_state" where
  "toy_state best f =
     \<lparr>model = toy_model0\<lparr>weights := 5\<rparr>, optimizer = 3, f_opt = f, best_model_wts = 0,
      best_acc = best, val_acc_history = [], written = [], events = []\<rparr>"

section \<open>The chunking loop\<close>

lemma len_shape [simp]: "shape t = n # rest \<Longrightarrow> len t = n"
  by (simp add: len_def)

lemma narrow0_in_range:
  assumes "shape t = n # rest" "s + l \<le> n"
  shows "narrow0 t (int s) (int l) = Inr (slice_rows t s l)"
  using assms by (simp add: narrow0_def)

lemma len_slice_rows [simp]: "len (slice_rows t s l) = l"
  by (simp add: slice_rows_def len_def Let_def)

lemma classify_chunk_eq:
  "classify_chunk g tmp =
     (Inr (run (patch_classifier g) tmp),
      \<lparr>checkpointed = list_ex snd (named_parameters (patch_classifier g)), rows = len tmp,
       dummy_arg_of = Some (dummy_tensor g)\<rparr>)"
  by (simp add: classify_chunk_def call_checkpoint_def call_direct_def ppl_def)

lemma chunk_loop_run:
  "shape pl = n # rest \<Longrightarrow> 0 < L \<Longrightarrow>
   chunk_loop g (int L) pl chunks (int c) calls =
     Some (Inr (chunks @ map (\<lambda>(s, l). run (patch_classifier g) (slice_rows pl s l)) (chunk_bounds L n c)),
           calls @ map (\<lambda>(s, l). \<lparr>checkpointed = list_ex snd (named_parameters (patch_classifier g)),
                                  rows = l, dummy_arg_of = Some (dummy_tensor g)\<rparr>) (chunk_bounds L n c))"
proof (induction L n c arbitrary: chunks calls rule: chunk_bounds.induct)
  case (1 L n c)
  note sh = \<open>shape pl = n # rest\<close>
  show ?case
  proof (cases "c < n")
    case True
    have m: "min (int L) (int n - int c) = int (min L (n - c))"
      using True by (auto simp: min_def)
    have nr: "narrow0 pl (int c) (int (min L (n - c))) = Inr (slice_rows pl c (min L (n - c)))"
      using True by (intro narrow0_in_range [OF sh]) (auto simp: min_def)
    have step: "chunk_loop g (int L) pl chunks (int c) calls =
        chunk_loop g (int L) pl (chunks @ [run (patch_classifier g) (slice_rows pl c (min L (n - c)))])
          (int (c + L))
          (calls @ [\<lparr>checkpointed = list_ex snd (named_parameters (patch_classifier g)),
                     rows = min L (n - c), dummy_arg_of = Some (dummy_tensor g)\<rparr>])"
      using True sh
      by (subst chunk_loop.simps) (simp add: m nr classify_chunk_eq)
    show ?thesis
      using True "1.prems" "1.IH"
      by (simp add: step chunk_bounds.simps [of L n c])
  next
    case False
    then show ?thesis
      using sh by (subst chunk_loop.simps) (simp add: chunk_bounds.simps [of L n c])
  qed
qed


lemma chunk_loop_stuck_aux:
  assumes sh: "shape pl = n # rest" and pos: "0 < n"
    and ret: "chunk_loop g lm p ch cnt cl = Some y"
  shows "\<not> (lm = 0 \<and> p = pl \<and> cnt = 0)"
proof (rule chunk_loop.raw_induct
    [where P = "\<lambda>g lm p ch cnt cl y. \<not> (lm = 0 \<and> p = pl \<and> cnt = 0)", OF _ ret])
  fix loop :: "('a, 'b) gridnet \<Rightarrow> int \<Rightarrow> 'a tensor \<Rightarrow> 'b tensor list \<Rightarrow> int \<Rightarrow> 'b ppl_call list \<Rightarrow>
     ((error + 'b tensor list) \<times> 'b ppl_call list) option"
    and g limit patch_list cp_chunks count calls y
  assume IH: "\<And>g limit patch_list cp_chunks count calls y.
        loop g limit patch_list cp_chunks count calls = Some y \<Longrightarrow>
        \<not> (limit = 0 \<and> patch_list = pl \<and> count = 0)"
    and body: "(if count < int (len patch_list)
      then case narrow0 patch_list count (min limit (int (len patch_list) - count)) of
           Inl e \<Rightarrow> Some (Inl e, calls)
           | Inr tmp \<Rightarrow>
               (case classify_chunk g tmp of
                 (Inl e, c) \<Rightarrow> Some (Inl e, calls @ [c])
               | (Inr chunk, c) \<Rightarrow>
                   loop g limit patch_list (cp_chunks @ [chunk]) (count + limit) (calls @ [c]))
      else Some (Inr cp_chunks, calls)) = Some y"
  show "\<not> (limit = 0 \<and> patch_list = pl \<and> count = 0)"
  proof
    assume a: "limit = 0 \<and> patch_list = pl \<and> count = 0"
    have nr: "narrow0 pl 0 0 = Inr (slice_rows pl 0 0)"
      using narrow0_in_range [OF sh, of 0 0] by simp
    from body a sh pos have "loop g 0 pl
        (cp_chunks @ [run (patch_classifier g) (slice_rows pl 0 0)]) 0
        (calls @ [\<lparr>checkpointed = list_ex snd (named_parameters (patch_classifier g)),
                   rows = 0, dummy_arg_of = Some (dummy_tensor g)\<rparr>]) = Some y"
      by (simp add: nr classify_chunk_eq)
    from IH [OF this] show False by simp
  qed
qed

lemma chunk_loop_stuck:
  assumes "shape pl = n # rest" "0 < n"
  shows "chunk_loop g 0 pl chunks 0 calls = None"
proof (cases "chunk_loop g 0 pl chunks 0 calls")
  case None
  then show ?thesis .
next
  case (Some y)
  from chunk_loop_stuck_aux [OF assms Some] show ?thesis by simp
qed


lemma length_chunk_bounds:
  "0 < L \<Longrightarrow> length (chunk_bounds L n c) = (n - c + L - 1) div L"
proof (induction L n c rule: chunk_bounds.induct)
  case (1 L n c)
  show ?case
  proof (cases "c < n")
    case True
    have "(n - c + L - 1) div L = Suc ((n - (c + L) + L - 1) div L)"
    proof (cases "L \<le> n - c")
      case True
      define m where "m = n - (c + L) + L - 1"
      have "n - c + L - 1 = m + L" using True \<open>0 < L\<close> unfolding m_def by arith
      moreover have "(m + L) div L = Suc (m div L)" using \<open>0 < L\<close> by simp
      ultimately show ?thesis unfolding m_def by simp
    next
      case False
      with \<open>c < n\<close> \<open>0 < L\<close> have "(n - c + L - 1) div L = 1"
        by (intro div_nat_eqI) auto
      with False \<open>0 < L\<close> show ?thesis by simp
    qed
    with True "1.prems" "1.IH" show ?thesis
      by (simp add: chunk_bounds.simps [of L n c])
  next
    case False
    with "1.prems" show ?thesis
      by (simp add: chunk_bounds.simps [of L n c])
  qed
qed

text \<open>
  C9. On a patch list with at least one patch, the chunking loop returns when
  \<^verbatim>\<open>atonce_patch_limit\<close> is at least 1, after one iteration per started group of that
  many patches; with \<^verbatim>\<open>atonce_patch_limit = 0\<close> the counter never moves and the loop
  never returns. With a negative \<^verbatim>\<open>atonce_patch_limit\<close> the first \<^verbatim>\<open>narrow\<close> raises, so the
  loop returns its chunks only when the limit is at least 1.
\<close>

theorem chunk_loop_termination:
  assumes "shape patch_list = n # rest" and "0 < n"
  shows "(1 \<le> limit \<longrightarrow>
            (\<exists>chunks calls. chunk_loop g limit patch_list [] 0 [] = Some (Inr chunks, calls) \<and>
               length chunks = (n + nat limit - 1) div nat limit)) \<and>
         (limit = 0 \<longrightarrow> chunk_loop g limit patch_list [] 0 [] = None) \<and>
         (limit < 0 \<longrightarrow> chunk_loop g limit patch_list [] 0 [] = Some (Inl NarrowError, []))"
proof (intro conjI impI)
  assume l: "1 \<le> limit"
  then have L: "0 < nat limit" and eq: "limit = int (nat limit)" by simp_all
  have "chunk_loop g (int (nat limit)) patch_list [] (int 0) [] =
     Some (Inr ([] @ map (\<lambda>(s, l). run (patch_classifier g) (slice_rows patch_list s l))
                      (chunk_bounds (nat limit) n 0)),
           [] @ map (\<lambda>(s, l). \<lparr>checkpointed = list_ex snd (named_parameters (patch_classifier g)),
                                rows = l, dummy_arg_of = Some (dummy_tensor g)\<rparr>)
                  (chunk_bounds (nat limit) n 0))"
    by (rule chunk_loop_run [OF assms(1) L])
  with eq length_chunk_bounds [OF L, of n 0]
  show "\<exists>chunks calls. chunk_loop g limit patch_list [] 0 [] = Some (Inr chunks, calls) \<and>
               length chunks = (n + nat limit - 1) div nat limit"
    by simp
next
  assume "limit = 0"
  with chunk_loop_stuck [OF assms] show "chunk_loop g limit patch_list [] 0 [] = None" by simp
next
  assume neg: "limit < 0"
  then have "narrow0 patch_list 0 (min limit (int n)) = Inl NarrowError"
    using assms by (simp add: narrow0_def min_def)
  then show "chunk_loop g limit patch_list [] 0 [] = Some (Inl NarrowError, [])"
    using assms by (subst chunk_loop.simps) simp
qed

theorem chunk_loop_termination_witness:
  "(\<exists>chunks calls. chunk_loop (demo_net True (Some 4)) 4 demo_patches [] 0 [] =
        Some (Inr chunks, calls) \<and> length chunks = 3) \<and>
   chunk_loop (demo_net True (Some 0)) 0 demo_patches [] 0 [] = None \<and>
   chunk_loop (demo_net True (Some (- 1))) (- 1) demo_patches [] 0 [] = Some (Inl NarrowError, [])"
proof -
  have sh: "shape demo_patches = 10 # [1, 1, 2]" by (simp add: demo_patches_def)
  show ?thesis
    using chunk_loop_termination [OF sh, of 4 "demo_net True (Some 4)"]
      chunk_loop_termination [OF sh, of 0 "demo_net True (Some 0)"]
      chunk_loop_termination [OF sh, of "- 1" "demo_net True (Some (- 1))"]
    by simp
qed

section \<open>Chunked and unchunked classification\<close>

subsection \<open>The partition into chunks\<close>

lemma chunk_bounds_in_range:
  "(s, l) \<in> set (chunk_bounds L n c) \<Longrightarrow> s + l \<le> n"
proof (induction L n c rule: chunk_bounds.induct)
  case (1 L n c)
  then show ?case
    by (subst (asm) (2) chunk_bounds.simps) (auto split: if_splits simp: min_def)
qed

lemma sum_chunk_bounds:
  "0 < L \<Longrightarrow> sum_list (map snd (chunk_bounds L n c)) = n - c"
proof (induction L n c rule: chunk_bounds.induct)
  case (1 L n c)
  then show ?case
    by (subst chunk_bounds.simps) (auto simp: min_def)
qed

lemma concat_chunk_bounds:
  "0 < L \<Longrightarrow>
   concat (map (\<lambda>(s, l). take (l * w) (drop (s * w) xs)) (chunk_bounds L n c)) =
     take ((n - c) * w) (drop (c * w) xs)"
proof (induction L n c rule: chunk_bounds.induct)
  case (1 L n c)
  show ?case
  proof (cases "c < n")
    case True
    show ?thesis
    proof (cases "L \<le> n - c")
      case le: True
      have "n - c = L + (n - (c + L))" using le by arith
      then have "(n - c) * w = L * w + (n - (c + L)) * w"
        by (metis add_mult_distrib)
      then have "take ((n - c) * w) (drop (c * w) xs) =
            take (L * w + (n - (c + L)) * w) (drop (c * w) xs)"
        by simp
      also have "\<dots> = take (L * w) (drop (c * w) xs) @
                       take ((n - (c + L)) * w) (drop ((c + L) * w) xs)"
        by (simp add: take_add add_mult_distrib add.commute)
      finally show ?thesis
        using True le "1.prems" "1.IH"
        by (simp add: chunk_bounds.simps [of L n c] min_def)
    next
      case False
      then have "n - (c + L) = 0" by simp
      with True False "1.prems" "1.IH" show ?thesis
        by (simp add: chunk_bounds.simps [of L n c] min_def)
    qed
  next
    case False
    then show ?thesis by (simp add: chunk_bounds.simps [of L n c])
  qed
qed


lemma chunk_bounds_nonempty: "0 < L \<Longrightarrow> c < n \<Longrightarrow> chunk_bounds L n c \<noteq> []"
  by (simp add: chunk_bounds.simps [of L n c])

lemma slice_rows_shape [simp]: "shape (slice_rows t s l) = l # tl (shape t)"
  by (simp add: slice_rows_def Let_def)

lemma slice_rows_elems:
  "elems (slice_rows t s l) =
     take (l * prod_list (tl (shape t))) (drop (s * prod_list (tl (shape t))) (elems t))"
  by (simp add: slice_rows_def Let_def)

text \<open>Concatenating the slices of a matrix over the chunk bounds gives the matrix back.\<close>

lemma cat0_slices:
  assumes L: "0 < L" and n: "0 < n" and sh: "shape u = [n, k]" and wf: "wf_tensor u"
  shows "cat0 (map (\<lambda>(s, l). slice_rows u s l) (chunk_bounds L n 0)) = Inr u"
proof -
  let ?ts = "map (\<lambda>(s, l). slice_rows u s l) (chunk_bounds L n 0)"
  from chunk_bounds_nonempty [OF L n] obtain b bs where b: "chunk_bounds L n 0 = b # bs"
    by (cases "chunk_bounds L n 0") auto
  have shapes: "list_all (\<lambda>v. shape v \<noteq> [] \<and> tl (shape v) = tl (shape (hd ?ts))) ?ts"
    by (auto simp: list_all_iff b sh split: prod.splits)
  have lens: "map len ?ts = map snd (chunk_bounds L n 0)"
    by (auto simp: len_def)
  have els: "map elems ?ts = map (\<lambda>(s, l). take (l * k) (drop (s * k) (elems u))) (chunk_bounds L n 0)"
    by (auto simp: slice_rows_elems sh)
  have len_u: "length (elems u) = n * k" using wf sh by (simp add: wf_tensor_def)
  have "cat0 ?ts = Inr \<lparr>shape = sum_list (map len ?ts) # tl (shape (hd ?ts)),
                        elems = concat (map elems ?ts)\<rparr>"
    using shapes by (simp add: cat0_def b split: list.splits)
  also have "\<dots> = Inr \<lparr>shape = [n, k], elems = elems u\<rparr>"
    unfolding lens els sum_chunk_bounds [OF L] concat_chunk_bounds [OF L]
    by (simp add: b sh len_u split: prod.splits)
  also have "\<dots> = Inr u" using sh by simp
  finally show ?thesis .
qed

lemma reshape_infer_Inr:
  assumes "reshape_infer x rest = Inr pl"
  shows "shape pl = (length (elems x) div prod_list rest) # rest"
    and "elems pl = elems x"
    and "0 < prod_list rest"
    and "length (elems x) = (length (elems x) div prod_list rest) * prod_list rest"
    and "wf_tensor pl"
proof -
  from assms have p: "0 < prod_list rest" and m: "length (elems x) mod prod_list rest = 0"
    and pl: "pl = \<lparr>shape = (length (elems x) div prod_list rest) # rest, elems = elems x\<rparr>"
    by (auto simp: reshape_infer_def Let_def split: if_splits)
  show "shape pl = (length (elems x) div prod_list rest) # rest" "elems pl = elems x"
    by (simp_all add: pl)
  show "0 < prod_list rest" by (rule p)
  show e: "length (elems x) = (length (elems x) div prod_list rest) * prod_list rest"
    using m by (metis add.right_neutral div_mult_mod_eq)
  show "wf_tensor pl"
    using e by (simp add: wf_tensor_def pl)
qed

lemma chunked_classification:
  assumes bc: "batch_classifier (run (patch_classifier g)) pshape k"
    and sh: "shape pl = n # pshape" and wf: "wf_tensor pl" and n: "0 < n" and L: "0 < L"
  shows "cat0 (map (\<lambda>(s, l). run (patch_classifier g) (slice_rows pl s l)) (chunk_bounds L n 0)) =
           Inr (run (patch_classifier g) pl)"
proof -
  let ?f = "run (patch_classifier g)"
  have "len pl = n" using sh by simp
  with bc sh wf have all: "wf_tensor (?f pl) \<and> shape (?f pl) = [len pl, k] \<and>
        (\<forall>s l. s + l \<le> len pl \<longrightarrow> ?f (slice_rows pl s l) = slice_rows (?f pl) s l)"
    unfolding batch_classifier_def by blast
  with \<open>len pl = n\<close> have f: "wf_tensor (?f pl)" "shape (?f pl) = [n, k]"
    and sl: "\<And>s l. s + l \<le> n \<Longrightarrow> ?f (slice_rows pl s l) = slice_rows (?f pl) s l"
    by simp_all
  have eq: "map (\<lambda>(s, l). ?f (slice_rows pl s l)) (chunk_bounds L n 0) =
        map (\<lambda>(s, l). slice_rows (?f pl) s l) (chunk_bounds L n 0)"
    by (rule map_cong) (auto dest: chunk_bounds_in_range simp: sl)
  show ?thesis
    unfolding eq by (rule cat0_slices [OF L n f(2) f(1)])
qed

lemma patch_predictions_unchunked:
  assumes "atonce_patch_limit g = None" and "reshape_infer x (patch_shape g) = Inr pl"
  shows "patch_predictions g x =
           Some (to_grid g (run (patch_classifier g) pl),
                 [\<lparr>checkpointed = False, rows = len pl, dummy_arg_of = Some (dummy_tensor g)\<rparr>])"
  using assms by (simp add: patch_predictions_def call_direct_def ppl_def)

lemma patch_predictions_chunked:
  assumes lim: "atonce_patch_limit g = Some limit" "1 \<le> limit"
    and bc: "batch_classifier (run (patch_classifier g)) (patch_shape g) k"
    and r: "reshape_infer x (patch_shape g) = Inr pl" and ne: "elems x \<noteq> []"
  shows "patch_predictions g x =
           Some (to_grid g (run (patch_classifier g) pl),
                 map (\<lambda>(s, l). \<lparr>checkpointed = list_ex snd (named_parameters (patch_classifier g)),
                                 rows = l, dummy_arg_of = Some (dummy_tensor g)\<rparr>)
                   (chunk_bounds (nat limit) (len pl) 0))"
proof -
  let ?f = "run (patch_classifier g)"
  define n where "n = length (elems x) div prod_list (patch_shape g)"
  define L where "L = nat limit"
  from reshape_infer_Inr [OF r]
  have sh: "shape pl = n # patch_shape g" and wf: "wf_tensor pl"
    and len: "length (elems x) = n * prod_list (patch_shape g)"
    by (simp_all add: n_def)
  from ne len have n: "0 < n" by (cases n) auto
  from lim have L: "0 < L" and limit: "limit = int L" by (simp_all add: L_def)
  have lenpl: "len pl = n" using sh by simp
  have loop: "chunk_loop g (int L) pl [] (int 0) [] =
     Some (Inr ([] @ map (\<lambda>(s, l). ?f (slice_rows pl s l)) (chunk_bounds L n 0)),
           [] @ map (\<lambda>(s, l). \<lparr>checkpointed = list_ex snd (named_parameters (patch_classifier g)),
                                rows = l, dummy_arg_of = Some (dummy_tensor g)\<rparr>) (chunk_bounds L n 0))"
    by (rule chunk_loop_run [OF sh L])
  have cat: "cat0 (map (\<lambda>(s, l). ?f (slice_rows pl s l)) (chunk_bounds L n 0)) = Inr (?f pl)"
    by (rule chunked_classification [OF bc sh wf n L])
  show ?thesis
    unfolding lenpl L_def [symmetric]
    using loop cat by (simp add: patch_predictions_def r lim(1) limit)
qed

subsection \<open>A scoring function applied patch by patch is a batch classifier\<close>

lemma drop_concat_map:
  "(\<And>x. length (f x) = k) \<Longrightarrow> drop (s * k) (concat (map f xs)) = concat (map f (drop s xs))"
proof (induction xs arbitrary: s)
  case Nil
  then show ?case by simp
next
  case (Cons a xs)
  then show ?case by (cases s) simp_all
qed

lemma take_concat_map:
  "(\<And>x. length (f x) = k) \<Longrightarrow> take (l * k) (concat (map f xs)) = concat (map f (take l xs))"
proof (induction xs arbitrary: l)
  case Nil
  then show ?case by simp
next
  case (Cons a xs)
  then show ?case by (cases l) simp_all
qed

lemma length_rows_of [simp]: "length (rows_of t) = len t"
  by (simp add: rows_of_def Let_def)

lemma row_of_slice:
  assumes "i < l"
  shows "take w (drop (i * w) (take (l * w) (drop (s * w) xs))) = take w (drop ((s + i) * w) xs)"
proof -
  define d where "d = l - i - 1"
  have l: "l = i + Suc d" using assms by (simp add: d_def)
  have lw: "l * w - i * w = w + d * w" by (simp add: l add_mult_distrib)
  have sw: "(s + i) * w = i * w + s * w" by (simp add: add_mult_distrib)
  have a: "drop (i * w) (take (l * w) (drop (s * w) xs)) = take (w + d * w) (drop (i * w) (drop (s * w) xs))"
    by (simp only: drop_take lw)
  have b: "take w (take (w + d * w) (drop (i * w) (drop (s * w) xs))) = take w (drop (i * w) (drop (s * w) xs))"
    by (simp only: take_take) simp
  have c: "drop (i * w) (drop (s * w) xs) = drop ((s + i) * w) xs"
    by (simp only: drop_drop sw)
  have "take w (drop (i * w) (take (l * w) (drop (s * w) xs))) =
        take w (take (w + d * w) (drop (i * w) (drop (s * w) xs)))"
    by (simp only: a)
  also note b
  also have "take w (drop (i * w) (drop (s * w) xs)) = take w (drop ((s + i) * w) xs)"
    by (simp only: c)
  finally show ?thesis .
qed

lemma rows_of_slice_rows:
  assumes "s + l \<le> len t"
  shows "rows_of (slice_rows t s l) = take l (drop s (rows_of t))"
proof -
  let ?w = "prod_list (tl (shape t))"
  let ?g = "\<lambda>i. take ?w (drop (i * ?w) (elems t))"
  have "take l (drop s (map ?g [0..<len t])) = map ?g [s..<s + l]"
    using assms by (simp add: take_map drop_map take_upt)
  also have "\<dots> = map (\<lambda>i. ?g (s + i)) [0..<l]"
    by (simp add: map_add_upt [symmetric] add.commute)
  also have "\<dots> = map (\<lambda>i. take ?w (drop (i * ?w) (take (l * ?w) (drop (s * ?w) (elems t))))) [0..<l]"
    by (rule map_cong) (simp_all add: row_of_slice)
  finally show ?thesis
    by (simp add: rows_of_def Let_def slice_rows_elems)
qed

lemma per_patch_batch_classifier:
  assumes "\<And>p. length (f p) = k"
  shows "batch_classifier (per_patch f k) pshape k"
  unfolding batch_classifier_def
proof (intro allI impI conjI)
  fix t :: "'a tensor"
  show "shape (per_patch f k t) = [len t, k]" by (simp add: per_patch_def)
  show "wf_tensor (per_patch f k t)"
    using assms by (simp add: per_patch_def wf_tensor_def length_concat comp_def sum_list_triv)
next
  fix t :: "'a tensor" and s l
  assume "s + l \<le> len t"
  then show "per_patch f k (slice_rows t s l) = slice_rows (per_patch f k t) s l"
    using assms
    by (simp add: per_patch_def slice_rows_def [of "\<lparr>shape = [len t, k], elems = concat (map f (rows_of t))\<rparr>"]
        rows_of_slice_rows drop_concat_map take_concat_map)
qed

lemma demo_batch_classifier:
  "batch_classifier (run (patch_classifier (demo_net tr limit))) (patch_shape (demo_net tr limit)) 2"
  by (simp add: demo_net_def GridNet_def gridnet_init_def demo_classifier_def
      per_patch_batch_classifier demo_score_def)



subsection \<open>The two paths agree\<close>




section \<open>The shape of the predictions\<close>

lemma length_all_indices [simp]: "length (all_indices sh) = prod_list sh"
proof (induction sh)
  case Nil
  then show ?case by simp
next
  case (Cons d ds)
  then show ?case
    by (simp add: length_concat comp_def sum_list_triv)
qed

lemma nth_concat_blocks:
  assumes "\<And>i. i < d \<Longrightarrow> length (g i) = m" and "i < d" and "r < m"
  shows "concat (map g [0..<d]) ! (i * m + r) = g i ! r"
  using assms
proof (induction d arbitrary: i)
  case 0
  then show ?case by simp
next
  case (Suc d)
  have "map (\<lambda>x. length (g x)) [0..<d] = map (\<lambda>x. m) [0..<d]"
    using Suc.prems(1) by (intro map_cong) simp_all
  then have "sum_list (map (\<lambda>x. length (g x)) [0..<d]) = sum_list (map (\<lambda>x. m) [0..<d])"
    by (rule arg_cong)
  also have "\<dots> = d * m" by (simp add: sum_list_triv)
  finally have len: "length (concat (map g [0..<d])) = d * m"
    by (simp add: length_concat comp_def)
  show ?case
  proof (cases "i < d")
    case True
    then have "i * m + r < d * m"
      using Suc.prems(3)
      by (metis Suc_leI add.commute add_lessD1 less_le_trans mult_Suc mult_le_mono1 nat_add_left_cancel_less)
    with True Suc show ?thesis
      by (simp add: nth_append len)
  next
    case False
    with Suc.prems have "i = d" by simp
    with Suc.prems show ?thesis
      by (simp add: nth_append len)
  qed
qed

lemma flat_index_bound:
  "valid_index sh idx \<Longrightarrow> flat_index sh idx < prod_list sh"
proof (induction sh idx rule: flat_index.induct)
  case (1 d ds i "is")
  then have i: "i < d" and v: "valid_index ds is"
    by (simp_all add: valid_index_def)
  from "1.IH" [OF v] have "i * prod_list ds + flat_index ds is < i * prod_list ds + prod_list ds"
    by simp
  also have "\<dots> = Suc i * prod_list ds" by simp
  also have "\<dots> \<le> d * prod_list ds" using i by (intro mult_le_mono1) simp
  finally show ?case by simp
qed (simp_all add: valid_index_def)

lemma nth_all_indices:
  "valid_index sh idx \<Longrightarrow> all_indices sh ! flat_index sh idx = idx"
proof (induction sh idx rule: flat_index.induct)
  case (1 d ds i "is")
  then have i: "i < d" and v: "valid_index ds is"
    by (simp_all add: valid_index_def)
  have "concat (map (\<lambda>i. map ((#) i) (all_indices ds)) [0..<d]) ! (i * prod_list ds + flat_index ds is) =
        map ((#) i) (all_indices ds) ! flat_index ds is"
    by (rule nth_concat_blocks) (simp_all add: i flat_index_bound [OF v])
  also have "\<dots> = i # is"
    using "1.IH" [OF v] flat_index_bound [OF v] by simp
  finally show ?case by simp
qed (simp_all add: valid_index_def)

lemma permute_at:
  assumes "permute t perm = Inr u" and "valid_index (shape u) j"
  shows "tensor_at u j = tensor_at t (source_index perm j)"
proof -
  from assms(1) have u: "u = \<lparr>shape = map ((!) (shape t)) perm,
      elems = map (\<lambda>j. tensor_at t (source_index perm j)) (all_indices (map ((!) (shape t)) perm))\<rparr>"
    by (simp add: permute_def Let_def split: if_splits)
  from assms(2) have v: "valid_index (map ((!) (shape t)) perm) j" by (simp add: u)
  show ?thesis
    using flat_index_bound [OF v] nth_all_indices [OF v]
    by (simp add: u tensor_at_def)
qed

lemma to_grid_shape:
  assumes gs: "grid_shape g = [gh, gw]" and nc: "n_classes g = n"
    and sh: "shape t = [b * gh * gw, n]" and wf: "wf_tensor t"
    and pos: "0 < gh" "0 < gw" "0 < n"
  shows "to_grid g t = permute \<lparr>shape = [b, gh, gw, n], elems = elems t\<rparr> [0, 3, 1, 2]"
    and "\<exists>out. to_grid g t = Inr out \<and> shape out = [b, n, gh, gw] \<and> wf_tensor out"
proof -
  have len: "length (elems t) = b * (gh * gw * n)"
    using wf sh by (simp add: wf_tensor_def mult.assoc)
  have r: "reshape_infer t (grid_shape g @ [n_classes g]) =
             Inr \<lparr>shape = [b, gh, gw, n], elems = elems t\<rparr>"
    using pos by (simp add: reshape_infer_def gs nc len)
  show 1: "to_grid g t = permute \<lparr>shape = [b, gh, gw, n], elems = elems t\<rparr> [0, 3, 1, 2]"
    by (simp add: to_grid_def r)
  have s: "sort [0, 3, 1, 2 :: nat] = [0..<4]"
    by code_simp
  show "\<exists>out. to_grid g t = Inr out \<and> shape out = [b, n, gh, gw] \<and> wf_tensor out"
    unfolding 1 by (simp add: permute_def s wf_tensor_def Let_def del: all_indices.simps)
qed

lemma patch_predictions_value:
  assumes bc: "batch_classifier (run (patch_classifier g)) (patch_shape g) k"
    and lim: "case atonce_patch_limit g of None \<Rightarrow> True | Some limit \<Rightarrow> 1 \<le> limit"
    and r: "reshape_infer x (patch_shape g) = Inr pl" and ne: "elems x \<noteq> []"
  shows "\<exists>calls. patch_predictions g x = Some (to_grid g (run (patch_classifier g) pl), calls)"
proof (cases "atonce_patch_limit g")
  case None
  from patch_predictions_unchunked [OF None r] show ?thesis by blast
next
  case (Some limit)
  with lim have "1 \<le> limit" by simp
  from patch_predictions_chunked [OF Some this bc r ne] show ?thesis by blast
qed

text \<open>
  C4. For an input of shape \<open>(b, gh, gw, c, h, w)\<close> with positive dimensions that matches
  the declared patch and grid shapes, a batch classifier for \<open>n\<close> classes, and no chunk
  limit or one that is at least 1, \<^verbatim>\<open>patch_predictions\<close> returns a tensor of shape
  \<open>(b, n, gh, gw)\<close>: the flat predictions reshaped to \<open>(b, gh, gw, n)\<close> and permuted by
  \<open>(0, 3, 1, 2)\<close>, so that its entry at \<open>(bi, k, i, j)\<close> is the score of class \<open>k\<close> for the
  patch at row \<open>i\<close> and column \<open>j\<close> of grid \<open>bi\<close>.
\<close>

theorem patch_predictions_shape:
  assumes bc: "batch_classifier (run (patch_classifier g)) [c, h, w] n"
    and cfg: "patch_shape g = [c, h, w]" "grid_shape g = [gh, gw]" "n_classes g = n"
    and lim: "case atonce_patch_limit g of None \<Rightarrow> True | Some limit \<Rightarrow> 1 \<le> limit"
    and x: "shape x = [b, gh, gw, c, h, w]" "wf_tensor x"
    and pos: "0 < b" "0 < gh" "0 < gw" "0 < c" "0 < h" "0 < w" "0 < n"
  shows "\<exists>out calls preds.
           patch_predictions g x = Some (Inr out, calls) \<and>
           shape out = [b, n, gh, gw] \<and> wf_tensor out \<and>
           preds = run (patch_classifier g) \<lparr>shape = [b * gh * gw, c, h, w], elems = elems x\<rparr> \<and>
           permute \<lparr>shape = [b, gh, gw, n], elems = elems preds\<rparr> [0, 3, 1, 2] = Inr out \<and>
           (\<forall>bi k i j. bi < b \<and> k < n \<and> i < gh \<and> j < gw \<longrightarrow>
              tensor_at out [bi, k, i, j] = tensor_at preds [(bi * gh + i) * gw + j, k])"
proof -
  define pl where "pl = \<lparr>shape = [b * gh * gw, c, h, w], elems = elems x\<rparr>"
  define preds where "preds = run (patch_classifier g) pl"
  have P: "0 < c * h * w" using pos by simp
  have numel: "length (elems x) = (b * gh * gw) * (c * h * w)"
    using x by (simp add: wf_tensor_def mult.assoc)
  have ne: "elems x \<noteq> []"
    using numel pos by (cases "elems x") auto
  have r: "reshape_infer x (patch_shape g) = Inr pl"
    using P by (simp add: reshape_infer_def cfg numel pl_def mult.assoc)
  have wfpl: "wf_tensor pl" and shpl: "shape pl = len pl # [c, h, w]" and lenpl: "len pl = b * gh * gw"
    using numel by (simp_all add: pl_def wf_tensor_def len_def mult.assoc)
  from bc wfpl shpl
  have "wf_tensor preds \<and> shape preds = [len pl, n]"
    unfolding batch_classifier_def preds_def by blast
  then have wfp: "wf_tensor preds" and shp: "shape preds = [b * gh * gw, n]"
    by (simp_all add: lenpl)
  from patch_predictions_value [OF _ lim r ne, of n] bc cfg
  obtain calls where pp: "patch_predictions g x = Some (to_grid g preds, calls)"
    by (auto simp: preds_def)
  from to_grid_shape [OF cfg(2,3) shp wfp pos(2,3,7)]
  obtain out where tg: "to_grid g preds = Inr out" and sho: "shape out = [b, n, gh, gw]"
    and wfo: "wf_tensor out"
    and perm: "permute \<lparr>shape = [b, gh, gw, n], elems = elems preds\<rparr> [0, 3, 1, 2] = Inr out"
    by auto
  have at: "tensor_at out [bi, k, i, j] = tensor_at preds [(bi * gh + i) * gw + j, k]"
    if "bi < b \<and> k < n \<and> i < gh \<and> j < gw" for bi k i j
  proof -
    from that have v: "valid_index (shape out) [bi, k, i, j]"
      by (simp add: valid_index_def sho)
    have si: "source_index [0, 3, 1, 2] [bi, k, i, j] = [bi, i, j, k]"
      by (simp add: source_index_def position_of_def upt_rec_numeral)
    have "tensor_at out [bi, k, i, j] =
          tensor_at \<lparr>shape = [b, gh, gw, n], elems = elems preds\<rparr> [bi, i, j, k]"
      using permute_at [OF perm v] by (simp only: si)
    also have "\<dots> = tensor_at preds [(bi * gh + i) * gw + j, k]"
      by (simp add: tensor_at_def shp algebra_simps)
    finally show ?thesis .
  qed
  have pp': "patch_predictions g x = Some (Inr out, calls)"
    using pp tg by simp
  have at': "\<forall>bi k i j. bi < b \<and> k < n \<and> i < gh \<and> j < gw \<longrightarrow>
              tensor_at out [bi, k, i, j] = tensor_at preds [(bi * gh + i) * gw + j, k]"
    using at by blast
  have "patch_predictions g x = Some (Inr out, calls) \<and>
           shape out = [b, n, gh, gw] \<and> wf_tensor out \<and>
           preds = run (patch_classifier g) \<lparr>shape = [b * gh * gw, c, h, w], elems = elems x\<rparr> \<and>
           permute \<lparr>shape = [b, gh, gw, n], elems = elems preds\<rparr> [0, 3, 1, 2] = Inr out \<and>
           (\<forall>bi k i j. bi < b \<and> k < n \<and> i < gh \<and> j < gw \<longrightarrow>
              tensor_at out [bi, k, i, j] = tensor_at preds [(bi * gh + i) * gw + j, k])"
    using pp' sho wfo perm at' by (simp add: preds_def pl_def)
  then show ?thesis by (intro exI)
qed

theorem patch_predictions_shape_witness:
  "\<exists>out calls.
     patch_predictions (demo_net False (Some 3)) demo_input = Some (Inr out, calls) \<and>
     shape out = [1, 2, 2, 2] \<and> wf_tensor out \<and>
     tensor_at out [0, 1, 1, 0] =
       tensor_at (run (patch_classifier (demo_net False (Some 3)))
                    \<lparr>shape = [4, 1, 1, 2], elems = elems demo_input\<rparr>) [2, 1]"
proof -
  let ?g = "demo_net False (Some 3)"
  have bc: "batch_classifier (run (patch_classifier ?g)) [1, 1, 2] 2"
    using demo_batch_classifier [of False "Some 3"]
    by (simp add: demo_net_def GridNet_def gridnet_init_def)
  have cfg: "patch_shape ?g = [1, 1, 2]" "grid_shape ?g = [2, 2]" "n_classes ?g = 2"
    "case atonce_patch_limit ?g of None \<Rightarrow> True | Some limit \<Rightarrow> 1 \<le> limit"
    by (simp_all add: demo_net_def GridNet_def gridnet_init_def)
  have x: "shape demo_input = [1, 2, 2, 1, 1, 2]" "wf_tensor demo_input"
    by (simp_all add: demo_input_def wf_tensor_def)
  from patch_predictions_shape [OF bc cfg x]
  obtain out calls where pp: "patch_predictions ?g demo_input = Some (Inr out, calls)"
    and sh: "shape out = [1, 2, 2, 2]" and wf: "wf_tensor out"
    and at: "\<forall>bi k i j. bi < 1 \<and> k < 2 \<and> i < 2 \<and> j < 2 \<longrightarrow>
       tensor_at out [bi, k, i, j] =
       tensor_at (run (patch_classifier ?g) \<lparr>shape = [1 * 2 * 2, 1, 1, 2], elems = elems demo_input\<rparr>)
         [(bi * 2 + i) * 2 + j, k]"
    by auto
  from at have "0 < (1::nat) \<and> 1 < (2::nat) \<and> 1 < (2::nat) \<and> 0 < (2::nat) \<longrightarrow>
       tensor_at out [0, 1, 1, 0] =
       tensor_at (run (patch_classifier ?g) \<lparr>shape = [1 * 2 * 2, 1, 1, 2], elems = elems demo_input\<rparr>)
         [(0 * 2 + 1) * 2 + 0, 1]"
    by blast
  then have "tensor_at out [0, 1, 1, 0] =
       tensor_at (run (patch_classifier ?g) \<lparr>shape = [4, 1, 1, 2], elems = elems demo_input\<rparr>) [2, 1]"
    by simp
  with pp sh wf show ?thesis by blast
qed

section \<open>Checkpointing and the dummy argument\<close>

lemma narrow0_error: "narrow0 t s l = Inl e \<Longrightarrow> e = NarrowError"
  by (auto simp: narrow0_def Let_def split: list.splits if_splits)

lemma reshape_infer_error: "reshape_infer t rest = Inl e \<Longrightarrow> e = ReshapeError"
  by (auto simp: reshape_infer_def Let_def split: if_splits)

lemma cat0_error: "cat0 ts = Inl e \<Longrightarrow> e = CatEmptyError \<or> e = CatShapeError"
  by (auto simp: cat0_def split: list.splits if_splits)

lemma permute_error: "permute t perm = Inl e \<Longrightarrow> e = PermuteError"
  by (auto simp: permute_def Let_def split: if_splits)

lemma to_grid_no_assertion: "to_grid g t \<noteq> Inl AssertionError"
  by (auto simp: to_grid_def split: sum.splits dest: reshape_infer_error permute_error)

lemma chunk_loop_calls:
  assumes ret: "chunk_loop g limit pl chunks count calls = Some y"
  shows "fst y \<noteq> Inl AssertionError \<and> (\<forall>c\<in>set (snd y). c \<in> set calls \<or> tracked_call g c)"
  apply (rule chunk_loop.raw_induct
    [where P = "\<lambda>g limit pl chunks count calls y.
        fst y \<noteq> Inl AssertionError \<and> (\<forall>c\<in>set (snd y). c \<in> set calls \<or> tracked_call g c)",
      OF _ ret])
  subgoal premises prems for loop g limit patch_list cp_chunks count calls y
  proof (cases "count < int (len patch_list)")
    case False
    with prems(2) show ?thesis by auto
  next
    case True
    show ?thesis
    proof (cases "narrow0 patch_list count (min limit (int (len patch_list) - count))")
      case (Inl e)
      with prems(2) True narrow0_error [OF Inl] show ?thesis by auto
    next
      case (Inr tmp)
      let ?c = "\<lparr>checkpointed = list_ex snd (named_parameters (patch_classifier g)), rows = len tmp,
                  dummy_arg_of = Some (dummy_tensor g)\<rparr>"
      from prems(2) True Inr
      have "loop g limit patch_list (cp_chunks @ [run (patch_classifier g) tmp]) (count + limit)
              (calls @ [?c]) = Some y"
        by (simp add: classify_chunk_eq)
      from prems(1) [OF this] show ?thesis
        by (auto simp: tracked_call_def)
    qed
  qed
  done

text \<open>
  C5. A chunk is classified through \<^verbatim>\<open>cp.checkpoint\<close> exactly when some named parameter
  of the patch classifier has \<^verbatim>\<open>requires_grad\<close> set. Every call of \<^verbatim>\<open>_ppl\<close>, in the loop
  or not, checkpointed or not, is given the dummy tensor of the network, which a
  network built by \<^verbatim>\<open>GridNet\<close> or \<^verbatim>\<open>GridNetHex\<close> creates with \<^verbatim>\<open>requires_grad=True\<close>; so no
  run of \<^verbatim>\<open>patch_predictions\<close> ends in the assertion error of \<^verbatim>\<open>_ppl\<close>, and only the
  chunked path checkpoints.
\<close>

theorem ppl_dummy_argument:
  "(checkpointed (snd (classify_chunk g tmp)) \<longleftrightarrow>
      (\<exists>p\<in>set (named_parameters (patch_classifier g)). snd p)) \<and>
   dummy_arg_of (snd (classify_chunk g tmp)) = Some (dummy_tensor g) \<and>
   fst (classify_chunk g tmp) = Inr (run (patch_classifier g) tmp) \<and>
   requires_grad (dummy_tensor (GridNet pc pshape gshape n bn lm)) \<and>
   requires_grad (dummy_tensor (GridNetHex pc pshape gshape n bn lm)) \<and>
   (\<forall>r calls. patch_predictions g x = Some (r, calls) \<longrightarrow>
      r \<noteq> Inl AssertionError \<and>
      (\<forall>c\<in>set calls.
         dummy_arg_of c = Some (dummy_tensor g) \<and>
         (checkpointed c \<longleftrightarrow>
            atonce_patch_limit g \<noteq> None \<and>
            (\<exists>p\<in>set (named_parameters (patch_classifier g)). snd p))))"
proof -
  have any: "list_ex snd ps = (\<exists>p\<in>set ps. snd p)" for ps :: "(string \<times> bool) list"
    by (simp add: list_ex_iff)
  have pp: "r \<noteq> Inl AssertionError \<and>
      (\<forall>c\<in>set calls.
         dummy_arg_of c = Some (dummy_tensor g) \<and>
         (checkpointed c \<longleftrightarrow>
            atonce_patch_limit g \<noteq> None \<and>
            (\<exists>p\<in>set (named_parameters (patch_classifier g)). snd p)))"
    if run: "patch_predictions g x = Some (r, calls)" for r calls
  proof (cases "reshape_infer x (patch_shape g)")
    case (Inl e)
    with run reshape_infer_error [OF Inl] show ?thesis
      by (auto simp: patch_predictions_def)
  next
    case (Inr pl)
    show ?thesis
    proof (cases "atonce_patch_limit g")
      case None
      with run Inr show ?thesis
        using to_grid_no_assertion [of g "run (patch_classifier g) pl"]
        by (auto simp: patch_predictions_def call_direct_def ppl_def)
    next
      case (Some limit)
      from run Inr Some obtain y where y: "chunk_loop g limit pl [] 0 [] = Some y"
        by (cases "chunk_loop g limit pl [] 0 []") (auto simp: patch_predictions_def)
      from chunk_loop_calls [OF y]
      have 1: "fst y \<noteq> Inl AssertionError" and 2: "\<forall>c\<in>set (snd y). tracked_call g c"
        by auto
      have 3: "r \<noteq> Inl AssertionError \<and> calls = snd y"
      proof (cases y)
        case (Pair res cs)
        show ?thesis
        proof (cases res)
          case (Inl e)
          with run Inr Some y Pair 1 show ?thesis
            by (auto simp: patch_predictions_def)
        next
          case chunks: (Inr cp_chunks)
          show ?thesis
          proof (cases "cat0 cp_chunks")
            case (Inl e)
            with run Inr Some y Pair chunks cat0_error [OF Inl] show ?thesis
              by (auto simp: patch_predictions_def)
          next
            case cat: (Inr patch_pred_list)
            with run Inr Some y Pair chunks to_grid_no_assertion [of g patch_pred_list]
            show ?thesis
              by (auto simp: patch_predictions_def)
          qed
        qed
      qed
      with 2 Some show ?thesis
        by (auto simp: tracked_call_def any)
    qed
  qed
  show ?thesis
    using pp
    by (simp add: classify_chunk_eq any GridNet_def GridNetHex_def gridnet_init_def)
qed

theorem ppl_dummy_argument_witness:
  "checkpointed (snd (classify_chunk (demo_net True (Some 3)) demo_patches)) \<and>
   \<not> checkpointed (snd (classify_chunk (demo_net False (Some 3)) demo_patches)) \<and>
   (\<exists>out calls. patch_predictions (demo_net True (Some 3)) demo_input = Some (Inr out, calls) \<and>
      length calls = 2 \<and>
      list_all (\<lambda>c. checkpointed c \<and> dummy_arg_of c = Some (dummy_tensor (demo_net True (Some 3))))
        calls) \<and>
   requires_grad (dummy_tensor (demo_net True (Some 3)))"
proof -
  let ?g = "demo_net True (Some 3)" and ?h = "demo_net False (Some 3)"
  let ?calls = "[\<lparr>checkpointed = True, rows = 3,
         dummy_arg_of = Some \<lparr>contents = \<lparr>shape = [1], elems = [1::int]\<rparr>, requires_grad = True\<rparr>\<rparr>,
        \<lparr>checkpointed = True, rows = 1,
         dummy_arg_of = Some \<lparr>contents = \<lparr>shape = [1], elems = [1]\<rparr>, requires_grad = True\<rparr>\<rparr>]"
  have ev: "patch_predictions ?g demo_input =
     Some (Inr \<lparr>shape = [1, 2, 2, 2], elems = [3, 7, 11, 15, 2, 4, 6, 8]\<rparr>, ?calls)"
    by code_simp
  have np: "named_parameters (patch_classifier ?g) = [(''conv.weight'', True), (''conv.bias'', False)]"
    "named_parameters (patch_classifier ?h) = [(''conv.weight'', False), (''conv.bias'', False)]"
    "atonce_patch_limit ?g = Some 3"
    by (simp_all add: demo_net_def GridNet_def gridnet_init_def demo_classifier_def)
  have g: "?g = GridNet (demo_classifier True) [1, 1, 2] [2, 2] 2 True (Some 3)"
    by (simp add: demo_net_def)
  from ppl_dummy_argument [of ?g demo_patches "demo_classifier True" "[1, 1, 2]" "[2, 2]" 2 True
        "Some 3" demo_input]
  have 1: "checkpointed (snd (classify_chunk ?g demo_patches))"
    and 2: "requires_grad (dummy_tensor ?g)"
    and 3: "\<forall>c\<in>set ?calls. dummy_arg_of c = Some (dummy_tensor ?g) \<and> checkpointed c"
    unfolding ev g [symmetric] by (simp_all add: np)
  from ppl_dummy_argument [of ?h demo_patches "demo_classifier True" "[1, 1, 2]" "[2, 2]" 2 True
        "Some 3" demo_input]
  have 4: "\<not> checkpointed (snd (classify_chunk ?h demo_patches))"
    by (simp add: np)
  from 3 have 5: "list_all (\<lambda>c. checkpointed c \<and> dummy_arg_of c = Some (dummy_tensor ?g)) ?calls"
    unfolding list_all_iff by blast
  show ?thesis
    using 1 2 4 5 ev by simp
qed

section \<open>The correctors\<close>

text \<open>
  C6. The channels through the corrector of the hexagonal variant: with batch
  normalisation the stack is well-formed only for 32 classes, since each normalisation
  layer is built for \<^verbatim>\<open>n_classes\<close> channels and receives 32; for 3 classes the first
  normalisation layer raises. Without batch normalisation the stack takes
  \<^verbatim>\<open>n_classes\<close> channels to \<^verbatim>\<open>n_classes\<close> channels.
\<close>

theorem hex_corrector_channels:
  "corrector_channels (corrector (GridNetHex pc pshape gshape n bn limit)) n =
     (if bn \<and> n \<noteq> 32 then Inl (ChannelError n 32) else Inr n) \<and>
   corrector_channels (corrector (GridNetHex pc pshape gshape 3 True limit)) 3 =
     Inl (ChannelError 3 32)"
  by (simp add: GridNetHex_def gridnet_init_def init_corrector_hex_def)

lemma rect_corrector_channels:
  "corrector_channels (corrector (GridNet pc pshape gshape n bn limit)) n = Inr n"
  by (simp add: GridNet_def gridnet_init_def init_corrector_def)

section \<open>The background short-circuit\<close>

lemma fold_max_Max: "fold max vs (v::'a::linorder) = Max (set (v # vs))"
  using Max.set_eq_fold [of v vs] by simp

text \<open>
  C8. On a patch with at least one element, \<^verbatim>\<open>foreground_classifier\<close> returns the
  constant background vector exactly when the largest element of the patch is 0, and
  otherwise the output of the patch classifier on the patch as a batch of one. So a
  patch without positive elements that contains a 0 is taken for background whatever
  negative elements it has, and a patch of negative elements goes to the classifier.
\<close>

theorem foreground_classifier_max:
  fixes x :: "('a::{linorder,zero}) tensor"
  assumes "elems x \<noteq> []"
  shows "foreground_classifier g x =
           Inr (if Max (set (elems x)) = 0 then contents (bg_const g)
                else run (patch_classifier g) (unsqueeze0 x)) \<and>
         ((\<forall>v\<in>set (elems x). v \<le> 0) \<and> 0 \<in> set (elems x) \<longrightarrow>
           foreground_classifier g x = Inr (contents (bg_const g))) \<and>
         ((\<forall>v\<in>set (elems x). v < 0) \<longrightarrow>
           foreground_classifier g x = Inr (run (patch_classifier g) (unsqueeze0 x)))"
proof -
  from assms obtain v vs where e: "elems x = v # vs" by (cases "elems x") auto
  have 1: "foreground_classifier g x =
           Inr (if Max (set (elems x)) = 0 then contents (bg_const g)
                else run (patch_classifier g) (unsqueeze0 x))"
    by (simp add: foreground_classifier_def e fold_max_Max)
  have 2: "foreground_classifier g x = Inr (contents (bg_const g))"
    if a: "(\<forall>v\<in>set (elems x). v \<le> 0) \<and> 0 \<in> set (elems x)"
  proof -
    from a have "Max (set (elems x)) = 0"
      by (intro Max_eqI) auto
    with 1 show ?thesis by simp
  qed
  have 3: "foreground_classifier g x = Inr (run (patch_classifier g) (unsqueeze0 x))"
    if a: "\<forall>v\<in>set (elems x). v < 0"
  proof -
    have "Max (set (elems x)) \<in> set (elems x)" using assms by (intro Max_in) auto
    with a have "Max (set (elems x)) < 0" by blast
    with 1 show ?thesis by simp
  qed
  from 1 2 3 show ?thesis by blast
qed

theorem foreground_classifier_max_witness:
  "foreground_classifier (demo_net False None) \<lparr>shape = [1, 1, 2], elems = [- 1, 0]\<rparr> =
     Inr \<lparr>shape = [1, 2], elems = [0, 0]\<rparr> \<and>
   foreground_classifier (demo_net False None) \<lparr>shape = [1, 1, 2], elems = [- 1, - 2]\<rparr> =
     Inr \<lparr>shape = [1, 2], elems = [- 3, 0]\<rparr>"
  using foreground_classifier_max [of "\<lparr>shape = [1, 1, 2], elems = [- 1, 0 :: int]\<rparr>" "demo_net False None"]
    foreground_classifier_max [of "\<lparr>shape = [1, 1, 2], elems = [- 1, - 2 :: int]\<rparr>" "demo_net False None"]
  by (simp add: demo_net_def GridNet_def gridnet_init_def demo_classifier_def per_patch_def
      rows_of_def unsqueeze0_def len_def demo_score_def numeral_2_eq_2)

section \<open>Masking the background\<close>

lemma mask_select_Inr:
  "mask_select xs keep = Inr ys \<longleftrightarrow>
     length keep = length xs \<and> ys = map fst (filter snd (zip xs keep))"
  by (auto simp: mask_select_def)

lemma kept_rows_agree:
  assumes "length xs = length ls" and "length ls = length ys"
    and "\<And>i. i < length ls \<Longrightarrow> P (ls ! i) \<Longrightarrow> ys ! i = xs ! i"
  shows "map fst (filter snd (zip ys (map P ls))) = map fst (filter snd (zip xs (map P ls)))"
  using assms
proof (induction xs ls ys rule: list_induct3)
  case Nil
  then show ?case by simp
next
  case (Cons x xs l ls y ys)
  have tl: "map fst (filter snd (zip ys (map P ls))) = map fst (filter snd (zip xs (map P ls)))"
  proof (rule Cons.IH)
    fix i assume "i < length ls" "P (ls ! i)"
    with Cons.prems [of "Suc i"] show "ys ! i = xs ! i" by simp
  qed
  from Cons.prems [of 0] have "P l \<Longrightarrow> y = x" by simp
  with tl show ?case by auto
qed

lemma kept_labels:
  "map fst (filter snd (zip ls (map P ls))) = filter P ls"
  by (induction ls) auto

lemma kept_after_drop:
  assumes "length xs = length ls" and "\<And>l. P l \<Longrightarrow> Q l"
  shows "map fst (filter snd (zip (map fst (filter (\<lambda>(x, l). Q l) (zip xs ls)))
                                  (map P (filter Q ls)))) =
         map fst (filter snd (zip xs (map P ls)))"
  using assms
proof (induction xs ls rule: list_induct2)
  case Nil
  then show ?case by simp
next
  case (Cons x xs l ls)
  then show ?case by auto
qed

lemma length_dropped:
  "length xs = length ls \<Longrightarrow>
   length (map fst (filter (\<lambda>(x, l). Q l) (zip xs ls))) = length (filter Q ls)"
  by (induction xs ls rule: list_induct2) auto

lemma mask_foreground_eq:
  "length outputs = length labels \<Longrightarrow>
   mask_foreground outputs labels =
     Inr (map fst (filter snd (zip outputs (map (\<lambda>l. 0 < l) labels))),
          map (\<lambda>l. l - 1) (filter (\<lambda>l. 0 < l) labels))"
  by (simp add: mask_foreground_def mask_select_def kept_labels)

text \<open>
  C3. When the mask is applied to a batch, every label kept is at least 1 before the
  decrement and at least 0 after it, and as many rows of predictions are kept as labels.
  The loss and the running statistics of the batch are computed from the rows and labels
  kept only: they do not change when the predictions at positions of label 0 change, nor
  when those positions are removed from the batch.
\<close>

theorem background_masking:
  assumes "mask_foreground outputs labels = Inr (outputs', labels')"
  shows "\<exists>kept.
           mask_select labels (map (\<lambda>l. 0 < l) labels) = Inr kept \<and>
           (\<forall>l\<in>set kept. 1 \<le> l) \<and>
           labels' = map (\<lambda>l. l - 1) kept \<and>
           (\<forall>l\<in>set labels'. 0 \<le> l) \<and>
           length outputs' = length labels' \<and>
           length labels' = length (filter (\<lambda>l. 0 < l) labels) \<and>
           batch_statistics T criterion accum_iters size0 outputs labels r =
             Inr (criterion outputs' labels' / real_of_int accum_iters,
                  update_running T (criterion outputs' labels' / real_of_int accum_iters) size0
                    outputs' labels' r) \<and>
           (\<forall>outputs2.
              length outputs2 = length outputs \<and>
              (\<forall>i<length labels. labels ! i \<noteq> 0 \<longrightarrow> outputs2 ! i = outputs ! i) \<longrightarrow>
              batch_statistics T criterion accum_iters size0 outputs2 labels r =
                batch_statistics T criterion accum_iters size0 outputs labels r) \<and>
           batch_statistics T criterion accum_iters size0
               (map fst (filter (\<lambda>(x, l). l \<noteq> 0) (zip outputs labels)))
               (filter (\<lambda>l. l \<noteq> 0) labels) r =
             batch_statistics T criterion accum_iters size0 outputs labels r"
proof -
  let ?P = "\<lambda>l::int. 0 < l"
  let ?kept = "filter ?P labels"
  from assms have len: "length outputs = length labels"
    and o': "outputs' = map fst (filter snd (zip outputs (map ?P labels)))"
    and l': "labels' = map (\<lambda>l. l - 1) ?kept"
    by (auto simp: mask_foreground_def mask_select_def kept_labels split: if_splits)
  have 1: "mask_select labels (map ?P labels) = Inr ?kept"
    by (simp add: mask_select_def kept_labels)
  have 2: "\<forall>l\<in>set ?kept. 1 \<le> l" by auto
  have 3: "\<forall>l\<in>set labels'. 0 \<le> l" unfolding l' by auto
  have "length (filter snd (zip outputs (map ?P labels))) = length ?kept"
    using len by (induction outputs labels rule: list_induct2) auto
  then have 4: "length outputs' = length labels'" by (simp add: o' l')
  have 5: "length labels' = length ?kept" by (simp add: l')
  have 6: "batch_statistics T criterion accum_iters size0 outputs labels r =
             Inr (criterion outputs' labels' / real_of_int accum_iters,
                  update_running T (criterion outputs' labels' / real_of_int accum_iters) size0
                    outputs' labels' r)"
    using assms by (simp add: batch_statistics_def batch_loss_def Let_def)
  have 7: "batch_statistics T criterion accum_iters size0 outputs2 labels r =
           batch_statistics T criterion accum_iters size0 outputs labels r"
    if a: "length outputs2 = length outputs \<and>
           (\<forall>i<length labels. labels ! i \<noteq> 0 \<longrightarrow> outputs2 ! i = outputs ! i)" for outputs2
  proof -
    have "map fst (filter snd (zip outputs2 (map ?P labels))) =
          map fst (filter snd (zip outputs (map ?P labels)))"
      using a len by (intro kept_rows_agree) auto
    then have "mask_foreground outputs2 labels = mask_foreground outputs labels"
      using a len by (simp add: mask_foreground_def mask_select_def)
    then show ?thesis by (simp add: batch_statistics_def)
  qed
  have 8: "batch_statistics T criterion accum_iters size0
               (map fst (filter (\<lambda>(x, l). l \<noteq> 0) (zip outputs labels)))
               (filter (\<lambda>l. l \<noteq> 0) labels) r =
             batch_statistics T criterion accum_iters size0 outputs labels r"
  proof -
    let ?Q = "\<lambda>l::int. l \<noteq> 0"
    have a: "map fst (filter snd (zip (map fst (filter (\<lambda>(x, l). ?Q l) (zip outputs labels)))
                                  (map ?P (filter ?Q labels)))) =
         map fst (filter snd (zip outputs (map ?P labels)))"
      by (rule kept_after_drop [OF len]) simp
    have b: "filter ?P (filter ?Q labels) = filter ?P labels"
      by (induction labels) auto
    have c: "length (map fst (filter (\<lambda>(x, l). ?Q l) (zip outputs labels))) = length (filter ?Q labels)"
      by (rule length_dropped [OF len])
    have "mask_foreground (map fst (filter (\<lambda>(x, l). ?Q l) (zip outputs labels))) (filter ?Q labels) =
          mask_foreground outputs labels"
      unfolding mask_foreground_eq [OF c] mask_foreground_eq [OF len] a b ..
    then show ?thesis by (simp add: batch_statistics_def)
  qed
  from 1 2 3 4 5 6 7 8 l' show ?thesis by blast
qed

theorem background_masking_witness:
  "mask_foreground [[5, 2], [1, 7 :: int]] [1, 0] = Inr ([[5, 2]], [0]) \<and>
   batch_statistics toy_torch toy_criterion 2 1 [[5, 2], [9, 9]] [1, 0] running0 =
     batch_statistics toy_torch toy_criterion 2 1 [[5, 2], [1, 7]] [1, 0] running0 \<and>
   batch_statistics toy_torch toy_criterion 2 1 [[5, 2]] [1] running0 =
     batch_statistics toy_torch toy_criterion 2 1 [[5, 2], [1, 7]] [1, 0] running0 \<and>
   map_sum id (running_foreground \<circ> snd)
     (batch_statistics toy_torch toy_criterion 2 1 [[5, 2], [1, 7]] [1, 0] running0) = Inr 1"
proof -
  let ?out = "[[5, 2], [1, 7 :: int]]" and ?lab = "[1, 0 :: int]"
  have m: "mask_foreground ?out ?lab = Inr ([[5, 2]], [0])"
    by (simp add: mask_foreground_def mask_select_def)
  have a: "length [[5, 2], [9, 9 :: int]] = length ?out \<and>
        (\<forall>i<length ?lab. ?lab ! i \<noteq> 0 \<longrightarrow> [[5, 2], [9, 9 :: int]] ! i = ?out ! i)"
    by (auto simp: less_Suc_eq)
  from background_masking [OF m, of toy_torch toy_criterion 2 1 running0]
  obtain kept where
    st: "batch_statistics toy_torch toy_criterion 2 1 ?out ?lab running0 =
           Inr (toy_criterion [[5, 2]] [0] / real_of_int 2,
                update_running toy_torch (toy_criterion [[5, 2]] [0] / real_of_int 2) 1
                  [[5, 2]] [0] running0)"
    and ag: "\<forall>outputs2.
              length outputs2 = length ?out \<and>
              (\<forall>i<length ?lab. ?lab ! i \<noteq> 0 \<longrightarrow> outputs2 ! i = ?out ! i) \<longrightarrow>
              batch_statistics toy_torch toy_criterion 2 1 outputs2 ?lab running0 =
                batch_statistics toy_torch toy_criterion 2 1 ?out ?lab running0"
    and dl: "batch_statistics toy_torch toy_criterion 2 1
               (map fst (filter (\<lambda>(x, l). l \<noteq> 0) (zip ?out ?lab)))
               (filter (\<lambda>l. l \<noteq> 0) ?lab) running0 =
             batch_statistics toy_torch toy_criterion 2 1 ?out ?lab running0"
    by blast
  from ag a have 1: "batch_statistics toy_torch toy_criterion 2 1 [[5, 2], [9, 9]] ?lab running0 =
                batch_statistics toy_torch toy_criterion 2 1 ?out ?lab running0"
    by blast
  from dl have 2: "batch_statistics toy_torch toy_criterion 2 1 [[5, 2]] [1] running0 =
     batch_statistics toy_torch toy_criterion 2 1 ?out ?lab running0"
    by simp
  have 3: "map_sum id (running_foreground \<circ> snd)
     (batch_statistics toy_torch toy_criterion 2 1 ?out ?lab running0) = Inr 1"
    unfolding st by (simp add: update_running_def running0_def)
  from m 1 2 3 show ?thesis by blast
qed

section \<open>What a phase leaves unchanged\<close>

lemma same_checkpoint_refl [simp]: "same_checkpoint st st"
  by (simp add: same_checkpoint_def)

lemma same_checkpoint_trans:
  "same_checkpoint a b \<Longrightarrow> same_checkpoint b c \<Longrightarrow> same_checkpoint a c"
  by (simp add: same_checkpoint_def)

lemma optimize_Inr:
  assumes "optimize T k i x l st = Inr st'"
  shows "k \<noteq> 0"
    and "same_checkpoint st st'"
    and "f_opt st' = None \<longleftrightarrow> f_opt st = None"
    and "events st' = events st @ Backward # (if int i mod k = 0 then step_events (f_opt st) else [])"
  using assms
  by (auto simp: optimize_def Let_def same_checkpoint_def step_events_def
      split: if_splits prod.splits option.splits)

lemma train_batch_Inr:
  assumes "train_batch T criterion k ph i b (st, r) = Inr (st', r')"
  shows "same_checkpoint st st' \<and> (f_opt st' = None \<longleftrightarrow> f_opt st = None) \<and>
      events st' = events st @
           (if ph = Train then Backward # (if int i mod k = 0 then step_events (f_opt st) else [])
            else []) \<and> (ph = Train \<longrightarrow> k \<noteq> 0)"
proof -
  obtain inputs labels where b: "b = (inputs, labels)" by (cases b)
  from assms obtain outputs m1 outputs1 labels1 loss r1 where
    f: "forward T ph (model st) inputs = Inr (outputs, m1)"
    and fl: "flatten_batch outputs labels = Inr (outputs1, labels1)"
    and bs: "batch_statistics T criterion k (len inputs) outputs1 labels1 r = Inr (loss, r1)"
    and rest: "(if ph = Train then
                 (case optimize T k i inputs labels (st\<lparr>model := m1\<rparr>) of
                    Inl e \<Rightarrow> Inl e | Inr st2 \<Rightarrow> Inr (st2, r1))
               else Inr (st\<lparr>model := m1\<rparr>, r1)) = Inr (st', r')"
    by (auto simp: train_batch_def b Let_def split: sum.splits prod.splits)
  show ?thesis
  proof (cases "ph = Train")
    case True
    with rest obtain st2 where o: "optimize T k i inputs labels (st\<lparr>model := m1\<rparr>) = Inr st2"
      and "st' = st2"
      by (auto split: sum.splits)
    with optimize_Inr [OF o] True show ?thesis
      by (simp add: same_checkpoint_def)
  next
    case False
    with rest show ?thesis
      by (auto simp: same_checkpoint_def)
  qed
qed

lemma step_events_cong: "(f = None \<longleftrightarrow> f' = None) \<Longrightarrow> step_events f' = step_events f"
  by (auto simp: step_events_def split: option.splits)

lemma run_batches_Inr:
  "run_batches T criterion k ph i bs (st, r) = Inr (st', r') \<Longrightarrow>
   same_checkpoint st st' \<and> (f_opt st' = None \<longleftrightarrow> f_opt st = None) \<and>
   events st' = events st @
     (if ph = Train
      then concat (map (\<lambda>j. Backward # (if int j mod k = 0 then step_events (f_opt st) else []))
                     [i..<i + length bs])
      else [])"
proof (induction bs arbitrary: i st r)
  case Nil
  then show ?case by simp
next
  case (Cons b bs)
  from Cons.prems obtain st1 r1 where
    tb: "train_batch T criterion k ph i b (st, r) = Inr (st1, r1)"
    and rb: "run_batches T criterion k ph (Suc i) bs (st1, r1) = Inr (st', r')"
    by (auto split: sum.splits)
  note h = train_batch_Inr [OF tb]
  from h have c: "step_events (f_opt st1) = step_events (f_opt st)"
    by (intro step_events_cong) simp
  note t = Cons.IH [OF rb, unfolded c]
  have u: "[i..<i + length (b # bs)] = i # [Suc i..<Suc i + length bs]"
    by (subst upt_rec) simp
  from h t have 1: "same_checkpoint st st'"
    by (blast intro: same_checkpoint_trans)
  from h t have 2: "f_opt st' = None \<longleftrightarrow> f_opt st = None" by simp
  from h t have 3: "events st' = events st @
     (if ph = Train
      then concat (map (\<lambda>j. Backward # (if int j mod k = 0 then step_events (f_opt st) else []))
                     (i # [Suc i..<Suc i + length bs]))
      else [])"
    by simp
  from 1 2 3 show ?case unfolding u by blast
qed

lemma phase_end_Inr:
  assumes "phase_end T outfile ph n r st = Inr st'"
  shows "val_acc_history st' = val_acc_history st @ (if ph = Val then [epoch_acc_of r] else [])"
    and "ph = Val \<and> acc_gt (epoch_acc_of r) (best_acc st) \<Longrightarrow>
           epoch_acc_of r = Acc (best_acc st') \<and>
           best_model_wts st' = state_dict T (model st) \<and>
           written st' = written st @
             (case outfile of
                None \<Rightarrow> []
              | Some path \<Rightarrow>
                  [(path, SavedWeights (state_dict T (model st))),
                   (splitext_root path @ ''.opt'',
                    (case f_opt st of
                       Some f \<Rightarrow> SavedOptDict [(''g_opt'', optimizer st), (''f_opt'', f)]
                     | None \<Rightarrow> SavedOpt (optimizer st)))])"
    and "\<not> (ph = Val \<and> acc_gt (epoch_acc_of r) (best_acc st)) \<Longrightarrow>
           best_acc st' = best_acc st \<and> best_model_wts st' = best_model_wts st \<and>
           written st' = written st"
    and "model st' = model st" and "events st' = events st"
  using assms
  by (auto simp: phase_end_def Let_def save_best_def acc_gt_def
      split: if_splits sum.splits acc.splits option.splits)

lemma run_phase_Inr:
  assumes "run_phase T dataloaders criterion outfile finetune k epoch ph st = Inr st'"
  shows "\<exists>st1 r. same_checkpoint st st1 \<and>
           phase_end T outfile ph (dataset_len (dataloaders ph)) r st1 = Inr st'"
proof -
  let ?m2 = "if finetune \<and> ph = Train then unfreeze T (set_mode T ph (model st))
             else set_mode T ph (model st)"
  from assms obtain st1 r where
    rb: "run_batches T criterion k ph 0 (batches (dataloaders ph) epoch) (st\<lparr>model := ?m2\<rparr>, running0) =
           Inr (st1, r)"
    and pe: "phase_end T outfile ph (dataset_len (dataloaders ph)) r st1 = Inr st'"
    by (auto simp: run_phase_def Let_def split: sum.splits)
  from run_batches_Inr [OF rb] have "same_checkpoint st st1"
    by (simp add: same_checkpoint_def)
  with pe show ?thesis by blast
qed

lemma run_phase_Train:
  assumes "run_phase T dataloaders criterion outfile finetune k epoch Train st = Inr st'"
  shows "same_checkpoint st st'"
proof -
  from run_phase_Inr [OF assms] obtain st1 r where
    s: "same_checkpoint st st1"
    and pe: "phase_end T outfile Train (dataset_len (dataloaders Train)) r st1 = Inr st'"
    by blast
  from phase_end_Inr(1,3) [OF pe] have "same_checkpoint st1 st'"
    by (simp add: same_checkpoint_def)
  with s show ?thesis by (rule same_checkpoint_trans)
qed

lemma run_phase_Val:
  assumes "run_phase T dataloaders criterion outfile finetune k epoch Val st = Inr st'"
  shows "\<exists>a. val_acc_history st' = val_acc_history st @ [a] \<and>
           (\<not> acc_gt a (best_acc st) \<longrightarrow>
              best_acc st' = best_acc st \<and> best_model_wts st' = best_model_wts st \<and>
              written st' = written st)"
proof -
  from run_phase_Inr [OF assms] obtain st1 r where
    s: "same_checkpoint st st1"
    and pe: "phase_end T outfile Val (dataset_len (dataloaders Val)) r st1 = Inr st'"
    by blast
  from phase_end_Inr(1) [OF pe] s
  have 1: "val_acc_history st' = val_acc_history st @ [epoch_acc_of r]"
    by (simp add: same_checkpoint_def)
  have 2: "best_acc st' = best_acc st \<and> best_model_wts st' = best_model_wts st \<and>
              written st' = written st"
    if "\<not> acc_gt (epoch_acc_of r) (best_acc st)"
    using phase_end_Inr(3) [OF pe] that s by (simp add: same_checkpoint_def)
  from 1 2 show ?thesis by blast
qed

lemma run_epochs_no_improvement:
  "run_epochs T dataloaders criterion outfile finetune k es st = Inr st' \<Longrightarrow>
   \<exists>new. val_acc_history st' = val_acc_history st @ new \<and> length new = length es \<and>
     ((\<forall>a\<in>set new. \<not> acc_gt a (best_acc st)) \<longrightarrow>
        best_acc st' = best_acc st \<and> best_model_wts st' = best_model_wts st \<and>
        written st' = written st)"
proof (induction es arbitrary: st)
  case Nil
  then show ?case by simp
next
  case (Cons e es)
  from Cons.prems obtain st1 st2 where
    tr: "run_phase T dataloaders criterion outfile finetune k e Train st = Inr st1"
    and va: "run_phase T dataloaders criterion outfile finetune k e Val st1 = Inr st2"
    and re: "run_epochs T dataloaders criterion outfile finetune k es st2 = Inr st'"
    by (auto split: sum.splits)
  from run_phase_Train [OF tr] have s1: "same_checkpoint st st1" .
  from run_phase_Val [OF va] obtain a where
    h2: "val_acc_history st2 = val_acc_history st1 @ [a]"
    and k2: "\<not> acc_gt a (best_acc st1) \<longrightarrow>
              best_acc st2 = best_acc st1 \<and> best_model_wts st2 = best_model_wts st1 \<and>
              written st2 = written st1"
    by blast
  from Cons.IH [OF re] obtain new where
    h3: "val_acc_history st' = val_acc_history st2 @ new" and l3: "length new = length es"
    and k3: "(\<forall>a\<in>set new. \<not> acc_gt a (best_acc st2)) \<longrightarrow>
        best_acc st' = best_acc st2 \<and> best_model_wts st' = best_model_wts st2 \<and>
        written st' = written st2"
    by blast
  have "val_acc_history st' = val_acc_history st @ (a # new)"
    using h2 h3 s1 by (simp add: same_checkpoint_def)
  moreover have "length (a # new) = length (e # es)" using l3 by simp
  moreover have "best_acc st' = best_acc st \<and> best_model_wts st' = best_model_wts st \<and>
        written st' = written st"
    if "\<forall>b\<in>set (a # new). \<not> acc_gt b (best_acc st)"
  proof -
    from that s1 have "\<not> acc_gt a (best_acc st1)" by (simp add: same_checkpoint_def)
    with k2 s1 have e2: "best_acc st2 = best_acc st \<and> best_model_wts st2 = best_model_wts st \<and>
              written st2 = written st"
      by (simp add: same_checkpoint_def)
    with that have "\<forall>a\<in>set new. \<not> acc_gt a (best_acc st2)" by simp
    with k3 e2 show ?thesis by simp
  qed
  ultimately show ?case by blast
qed

section \<open>Training without improvement\<close>

text \<open>
  C10. When \<^verbatim>\<open>train_model\<close> returns and no validation accuracy of its history is greater
  than 0, nothing has been saved, whatever the output path, and the model returned is
  the trained model loaded with the state dictionary copied before the first epoch; for
  a model whose state dictionary is what was loaded last, the weights returned are the
  weights before training.
\<close>

theorem no_improvement_restores_initial:
  assumes run: "train_model T model0 dataloaders criterion optimizer0 num_epochs outfile f_opt0
                  finetune accum_iters = Inr st"
    and none: "\<forall>a\<in>set (val_acc_history st). \<not> acc_gt a 0"
  shows "written st = [] \<and> best_model_wts st = state_dict T model0 \<and>
         (\<exists>m. model st = load_state_dict T (state_dict T model0) m) \<and>
         ((\<forall>w m. state_dict T (load_state_dict T w m) = w) \<longrightarrow>
            state_dict T (model st) = state_dict T model0) \<and>
         length (val_acc_history st) = num_epochs"
proof -
  let ?st0 = "\<lparr>model = model0, optimizer = optimizer0, f_opt = f_opt0,
                 best_model_wts = state_dict T model0, best_acc = 0,
                 val_acc_history = [], written = [], events = []\<rparr>"
  from run obtain st1 where
    re: "run_epochs T dataloaders criterion outfile finetune accum_iters [0..<num_epochs] ?st0 = Inr st1"
    and st: "st = st1\<lparr>model := load_state_dict T (best_model_wts st1) (model st1)\<rparr>"
    by (auto simp: train_model_def Let_def split: sum.splits)
  from run_epochs_no_improvement [OF re] obtain new where
    h: "val_acc_history st1 = new" and l: "length new = num_epochs"
    and k: "(\<forall>a\<in>set new. \<not> acc_gt a 0) \<longrightarrow>
        best_acc st1 = 0 \<and> best_model_wts st1 = state_dict T model0 \<and> written st1 = []"
    by auto
  from none h st have "\<forall>a\<in>set new. \<not> acc_gt a 0" by simp
  with k have "best_model_wts st1 = state_dict T model0" "written st1 = []" by simp_all
  with st h l show ?thesis by auto
qed

lemma toy_run_no_improvement:
  "train_model toy_torch toy_model0 (toy_loaders [2, 1]) toy_criterion 0 2 (Some ''out/best.pth'')
     (Some 0) True 2 =
   Inr \<lparr>model = \<lparr>weights = 0, grad = 0, trainable = True, training = False\<rparr>,
        optimizer = 4, f_opt = Some 4, best_model_wts = 0, best_acc = 0,
        val_acc_history = [Acc 0, Acc 0], written = [],
        events =
          [Backward, Step, ZeroGrad, FStep, FZeroGrad, Backward, Backward,
           Step, ZeroGrad, FStep, FZeroGrad, Backward, Step, ZeroGrad,
           FStep, FZeroGrad, Backward, Backward, Step, ZeroGrad, FStep,
           FZeroGrad]\<rparr>"
  by code_simp

theorem no_improvement_restores_initial_witness:
  "\<exists>st. train_model toy_torch toy_model0 (toy_loaders [2, 1]) toy_criterion 0 2
           (Some ''out/best.pth'') (Some 0) True 2 = Inr st \<and>
         val_acc_history st = [Acc 0, Acc 0] \<and> optimizer st = 4 \<and>
         written st = [] \<and> state_dict toy_torch (model st) = state_dict toy_torch toy_model0"
proof -
  let ?st = "\<lparr>model = \<lparr>weights = 0, grad = 0, trainable = True, training = False\<rparr>,
        optimizer = 4 :: nat, f_opt = Some 4, best_model_wts = 0 :: int, best_acc = 0,
        val_acc_history = [Acc 0, Acc 0], written = [],
        events =
          [Backward, Step, ZeroGrad, FStep, FZeroGrad, Backward, Backward,
           Step, ZeroGrad, FStep, FZeroGrad, Backward, Step, ZeroGrad,
           FStep, FZeroGrad, Backward, Backward, Step, ZeroGrad, FStep,
           FZeroGrad]\<rparr>"
  have none: "\<forall>a\<in>set (val_acc_history ?st). \<not> acc_gt a 0"
    by (simp add: acc_gt_def)
  have law: "\<forall>w m. state_dict toy_torch (load_state_dict toy_torch w m) = w"
    by (simp add: toy_torch_def)
  from no_improvement_restores_initial [OF toy_run_no_improvement none] law
  have "written ?st = [] \<and> state_dict toy_torch (model ?st) = state_dict toy_torch toy_model0"
    by blast
  with toy_run_no_improvement show ?thesis by simp
qed

section \<open>Saving the best model\<close>

lemma takeWhile_prefix:
  "\<forall>x\<in>set xs. P x \<Longrightarrow> \<not> P y \<Longrightarrow> takeWhile P (xs @ y # ys) = xs"
  by (induction xs) auto

lemma takeWhile_through:
  "\<forall>x\<in>set xs. P x \<Longrightarrow> takeWhile P (xs @ ys) = xs @ takeWhile P ys"
  by (induction xs) auto

lemma basename_drop: "basename stem = drop (length stem - length (basename stem)) stem"
proof -
  let ?t = "takeWhile (\<lambda>x. x \<noteq> CHR ''/'') (rev stem)"
  have "?t = take (length ?t) (rev stem)" by (rule takeWhile_eq_take)
  then have "rev ?t = rev (take (length ?t) (rev stem))" by simp
  also have "\<dots> = drop (length stem - length ?t) stem"
    by (simp add: rev_take)
  finally show ?thesis by (simp add: basename_def)
qed

lemma length_basename: "length (basename stem) \<le> length stem"
  unfolding basename_def using length_takeWhile_le [of _ "rev stem"] by simp

lemma splitext_root_ext:
  assumes dot: "CHR ''.'' \<notin> set ext" and sep: "CHR ''/'' \<notin> set ext"
    and name: "\<exists>c\<in>set (basename stem). c \<noteq> CHR ''.''"
  shows "splitext_root (stem @ ''.'' @ ext) = stem"
proof -
  let ?p = "stem @ ''.'' @ ext"
  define b where "b = length (basename stem)"
  have b: "b \<le> length stem" unfolding b_def by (rule length_basename)
  have rp: "rev ?p = rev ext @ CHR ''.'' # rev stem" by simp
  have "takeWhile (\<lambda>x. x \<noteq> CHR ''.'') (rev ?p) = rev ext"
    unfolding rp using dot by (intro takeWhile_prefix) auto
  then have di: "rfind CHR ''.'' ?p = int (length stem)"
    by (simp add: rfind_def)
  have "takeWhile (\<lambda>x. x \<noteq> CHR ''/'') (rev ?p) =
        rev ext @ takeWhile (\<lambda>x. x \<noteq> CHR ''/'') (CHR ''.'' # rev stem)"
    unfolding rp using sep by (intro takeWhile_through) auto
  then have "length (takeWhile (\<lambda>x. x \<noteq> CHR ''/'') (rev ?p)) = length ext + 1 + b"
    by (simp add: b_def basename_def)
  then have si: "rfind CHR ''/'' ?p = int (length stem) - 1 - int b"
    by (simp add: rfind_def)
  have nosep: "int (length stem) - 1 - int b = - 1" if "CHR ''/'' \<notin> set ?p"
  proof -
    from that have "\<forall>x\<in>set (rev stem). x \<noteq> CHR ''/''" by auto
    then have "takeWhile (\<lambda>x. x \<noteq> CHR ''/'') (rev stem) = rev stem"
      by (simp add: takeWhile_eq_all_conv)
    then have "length (takeWhile (\<lambda>x. x \<noteq> CHR ''/'') (rev stem)) = length (rev stem)"
      by (rule arg_cong)
    then have "b = length stem" by (simp add: b_def basename_def)
    then show ?thesis by simp
  qed
  have sepIndex: "(if CHR ''/'' \<in> set ?p then rfind CHR ''/'' ?p else - 1) =
                  int (length stem) - 1 - int b"
    using si nosep by simp
  have dotIndex: "(if CHR ''.'' \<in> set ?p then rfind CHR ''.'' ?p else - 1) = int (length stem)"
    using di by simp
  have "take b (drop (length stem - b) ?p) = drop (length stem - b) stem"
    using b by simp
  also have "\<dots> = basename stem"
    unfolding b_def by (rule basename_drop [symmetric])
  finally have seg: "take b (drop (length stem - b) ?p) = basename stem" .
  have n1: "nat (int (length stem) - (int (length stem) - 1 - int b + 1)) = b" by simp
  have n2: "nat (int (length stem) - 1 - int b + 1) = length stem - b" using b by simp
  have ex: "list_ex (\<lambda>x. x \<noteq> CHR ''.'') (basename stem)"
    using name by (simp add: list_ex_iff)
  show ?thesis
    unfolding splitext_root_def sepIndex dotIndex Let_def n1 n2 seg
    using ex by simp
qed

text \<open>
  C7. At the end of a phase, the best accuracy, the snapshot of the best weights and the
  files change exactly when the phase is the validation phase and its accuracy is
  greater than the best so far. Then the snapshot is the state dictionary of the model,
  and with an output path the weights are saved under that path and the optimizer state
  under the path with \<^verbatim>\<open>.opt\<close> in place of its extension: a dictionary with the keys
  \<^verbatim>\<open>g_opt\<close> and \<^verbatim>\<open>f_opt\<close> when there is a second optimizer, the state of the first one
  otherwise.
\<close>

theorem validation_checkpoint:
  assumes "phase_end T outfile ph n r st = Inr st'"
  shows "(ph = Val \<and> acc_gt (epoch_acc_of r) (best_acc st) \<longrightarrow>
            epoch_acc_of r = Acc (best_acc st') \<and>
            best_model_wts st' = state_dict T (model st) \<and>
            (case outfile of
               None \<Rightarrow> written st' = written st
             | Some path \<Rightarrow>
                 written st' = written st @
                   [(path, SavedWeights (state_dict T (model st))),
                    (splitext_root path @ ''.opt'',
                     (case f_opt st of
                        Some f \<Rightarrow> SavedOptDict [(''g_opt'', optimizer st), (''f_opt'', f)]
                      | None \<Rightarrow> SavedOpt (optimizer st)))])) \<and>
         (\<not> (ph = Val \<and> acc_gt (epoch_acc_of r) (best_acc st)) \<longrightarrow>
            written st' = written st \<and> best_model_wts st' = best_model_wts st \<and>
            best_acc st' = best_acc st) \<and>
         (outfile \<noteq> None \<longrightarrow>
            (written st' \<noteq> written st \<longleftrightarrow> ph = Val \<and> acc_gt (epoch_acc_of r) (best_acc st))) \<and>
         (\<forall>stem ext. CHR ''.'' \<notin> set ext \<and> CHR ''/'' \<notin> set ext \<and>
            (\<exists>c\<in>set (basename stem). c \<noteq> CHR ''.'') \<longrightarrow>
            splitext_root (stem @ ''.'' @ ext) @ ''.opt'' = stem @ ''.opt'')"
proof -
  note pe = phase_end_Inr [OF assms]
  have 1: "epoch_acc_of r = Acc (best_acc st') \<and>
            best_model_wts st' = state_dict T (model st) \<and>
            (case outfile of
               None \<Rightarrow> written st' = written st
             | Some path \<Rightarrow>
                 written st' = written st @
                   [(path, SavedWeights (state_dict T (model st))),
                    (splitext_root path @ ''.opt'',
                     (case f_opt st of
                        Some f \<Rightarrow> SavedOptDict [(''g_opt'', optimizer st), (''f_opt'', f)]
                      | None \<Rightarrow> SavedOpt (optimizer st)))])"
    if "ph = Val \<and> acc_gt (epoch_acc_of r) (best_acc st)"
    using pe(2) [OF that] by (cases outfile) simp_all
  have 2: "written st' = written st \<and> best_model_wts st' = best_model_wts st \<and>
            best_acc st' = best_acc st"
    if "\<not> (ph = Val \<and> acc_gt (epoch_acc_of r) (best_acc st))"
    using pe(3) [OF that] by simp
  have 3: "written st' \<noteq> written st \<longleftrightarrow> ph = Val \<and> acc_gt (epoch_acc_of r) (best_acc st)"
    if "outfile \<noteq> None"
  proof (cases "ph = Val \<and> acc_gt (epoch_acc_of r) (best_acc st)")
    case True
    from that obtain path where "outfile = Some path" by auto
    with 1 [OF True] True show ?thesis by simp
  next
    case False
    with 2 [OF False] show ?thesis by simp
  qed
  have 4: "splitext_root (stem @ ''.'' @ ext) @ ''.opt'' = stem @ ''.opt''"
    if "CHR ''.'' \<notin> set ext \<and> CHR ''/'' \<notin> set ext \<and> (\<exists>c\<in>set (basename stem). c \<noteq> CHR ''.'')"
    for stem ext
    using splitext_root_ext [of ext stem] that by simp
  from 1 2 3 4 show ?thesis by blast
qed

theorem validation_checkpoint_witness:
  "(\<exists>st'. phase_end toy_torch (Some ''out/best.pth'') Val 1
             (running0\<lparr>running_corrects := 3, running_foreground := 4, epoch_labels := [[0]]\<rparr>)
             (toy_state (1 / 2) (Some 7)) = Inr st' \<and>
          best_model_wts st' = 5 \<and>
          written st' =
            [(''out/best.pth'', SavedWeights 5),
             (''out/best.opt'', SavedOptDict [(''g_opt'', 3), (''f_opt'', 7)])]) \<and>
   (\<exists>st'. phase_end toy_torch (Some ''out/best.pth'') Val 1
             (running0\<lparr>running_corrects := 2, running_foreground := 4, epoch_labels := [[0]]\<rparr>)
             (toy_state (1 / 2) None) = Inr st' \<and>
          best_model_wts st' = 0 \<and> written st' = [])"
proof -
  let ?r = "running0\<lparr>running_corrects := 3, running_foreground := 4, epoch_labels := [[0]]\<rparr>"
  let ?r2 = "running0\<lparr>running_corrects := 2, running_foreground := 4, epoch_labels := [[0]]\<rparr>"
  obtain st' where pe: "phase_end toy_torch (Some ''out/best.pth'') Val 1 ?r (toy_state (1 / 2) (Some 7)) = Inr st'"
    by (simp add: phase_end_def toy_torch_def running0_def Let_def)
  obtain st2 where pe2: "phase_end toy_torch (Some ''out/best.pth'') Val 1 ?r2 (toy_state (1 / 2) None) = Inr st2"
    by (simp add: phase_end_def toy_torch_def running0_def Let_def)
  have gt: "acc_gt (epoch_acc_of ?r) (best_acc (toy_state (1 / 2) (Some 7)))"
    "\<not> acc_gt (epoch_acc_of ?r2) (best_acc (toy_state (1 / 2) None))"
    by (simp_all add: acc_gt_def epoch_acc_of_def running0_def toy_state_def)
  have ext: "CHR ''.'' \<notin> set ''pth'' \<and> CHR ''/'' \<notin> set ''pth'' \<and>
             (\<exists>c\<in>set (basename ''out/best''). c \<noteq> CHR ''.'')"
    by (simp add: basename_def)
  have p: "''out/best.pth'' = ''out/best'' @ ''.'' @ ''pth''" by simp
  note v = validation_checkpoint [OF pe]
  from v gt(1) have "best_model_wts st' = state_dict toy_torch (model (toy_state (1 / 2) (Some 7))) \<and>
      written st' = written (toy_state (1 / 2) (Some 7)) @
         [(''out/best.pth'', SavedWeights (state_dict toy_torch (model (toy_state (1 / 2) (Some 7))))),
          (splitext_root ''out/best.pth'' @ ''.opt'',
           (case f_opt (toy_state (1 / 2) (Some 7)) of
              Some f \<Rightarrow> SavedOptDict [(''g_opt'', optimizer (toy_state (1 / 2) (Some 7))), (''f_opt'', f)]
            | None \<Rightarrow> SavedOpt (optimizer (toy_state (1 / 2) (Some 7)))))]"
    by simp
  moreover from v have "\<forall>stem ext. CHR ''.'' \<notin> set ext \<and> CHR ''/'' \<notin> set ext \<and>
            (\<exists>c\<in>set (basename stem). c \<noteq> CHR ''.'') \<longrightarrow>
            splitext_root (stem @ ''.'' @ ext) @ ''.opt'' = stem @ ''.opt''"
    by blast
  then have "CHR ''.'' \<notin> set ''pth'' \<and> CHR ''/'' \<notin> set ''pth'' \<and>
             (\<exists>c\<in>set (basename ''out/best''). c \<noteq> CHR ''.'') \<longrightarrow>
            splitext_root (''out/best'' @ ''.'' @ ''pth'') @ ''.opt'' = ''out/best'' @ ''.opt''"
    by blast
  with ext have "splitext_root ''out/best.pth'' @ ''.opt'' = ''out/best.opt''"
    by simp
  ultimately have "best_model_wts st' = 5 \<and>
          written st' =
            [(''out/best.pth'', SavedWeights 5),
             (''out/best.opt'', SavedOptDict [(''g_opt'', 3), (''f_opt'', 7)])]"
    by (simp add: toy_state_def toy_torch_def toy_model0_def)
  moreover from validation_checkpoint [OF pe2] gt(2)
  have "best_model_wts st2 = 0 \<and> written st2 = []"
    by (simp add: toy_state_def)
  ultimately show ?thesis using pe pe2 by blast
qed

section \<open>Gradient accumulation\<close>













end
